theory Spec2Isabelle
  imports Complex_Main "HOL-Library.Word" "HOL-Library.AList" "HOL-Library.Multiset"
begin

section \<open>PowerDNS exporter: metric catalog, histogram builder and collection cycle\<close>

text \<open>
  The development embeds \<^verbatim>\<open>powerdns_exporter.go\<close> (the exporter, its constructor and the
  collection cycle) and the metric definitions file (the catalog tables and
  \<^verbatim>\<open>makeRecursorRTimeHistogram\<close>).

  Conventions of the embedding.
  \<^item> Go's \<^verbatim>\<open>float64\<close> statistics are finite (they are decoded from JSON numbers), so each
    denotes a rational; \<open>float64\<close> is \<open>rat\<close> and \<open>/\<close> is the exact quotient
    (the rounding of the quotient to the nearest \<^verbatim>\<open>float64\<close> is not modelled).
  \<^item> \<^verbatim>\<open>uint64\<close> is \<open>64 word\<close>: \<open>+\<close> wraps around as in Go.
  \<^item> A Go map that is only looked up and updated is an association list handled with
    \<open>AList.update\<close> and \<open>map_of\<close>; its length is the number of keys.
  \<^item> \<^verbatim>\<open>range\<close> over a Go map visits the entries in an order the language leaves open.
    The order is a parameter of the model (\<open>mapOrder\<close>); the theorems hold for every order.
  \<^item> A panic (a method call on a nil map entry) is the result \<open>None\<close>.
  \<^item> The Prometheus client objects are modelled by their documented behaviour: a gauge keeps
    the last value given to \<^verbatim>\<open>Set\<close>, a counter goes up by one with each \<^verbatim>\<open>Inc\<close>.
\<close>

subsection \<open>Data\<close>

type_synonym float64 = rat
type_synonym uint64 = "64 word"

text \<open>\<^verbatim>\<open>StatsEntry\<close>: one record of the statistics endpoint.\<close>

record StatsEntry =
  Name :: string
  Kind :: string
  Value :: float64

text \<open>The errors of the program: what \<^verbatim>\<open>getJSON\<close> can return, and the histogram's missing key.\<close>

datatype error = NetworkError | HTTPStatusError string | DecodeError | MissingKey string

record gaugeDefinition =
  gd_id :: int
  gd_name :: string
  gd_desc :: string
  gd_key :: string

record counterDefinition =
  cd_id :: int
  cd_name :: string
  cd_desc :: string
  cd_label :: string
  cd_labelMap :: "(string \<times> string) list"

text \<open>A Prometheus gauge and counter: the options they were made with, and the value.\<close>

record gauge =
  g_namespace :: string
  g_subsystem :: string
  g_name :: string
  g_help :: string
  g_value :: float64

record counter =
  c_namespace :: string
  c_subsystem :: string
  c_name :: string
  c_help :: string
  c_value :: nat

definition gauge_Set :: "float64 \<Rightarrow> gauge \<Rightarrow> gauge" where
  "gauge_Set v g = g\<lparr>g_value := v\<rparr>"

definition counter_Inc :: "counter \<Rightarrow> counter" where
  "counter_Inc c = c\<lparr>c_value := c_value c + 1\<rparr>"

text \<open>A metric descriptor, as \<^verbatim>\<open>prometheus.NewDesc\<close> builds it.\<close>

record desc =
  d_fqName :: string
  d_help :: string
  d_variableLabels :: "string list"

definition NewDesc :: "string \<Rightarrow> string \<Rightarrow> string list \<Rightarrow> desc" where
  "NewDesc fq h ls = \<lparr>d_fqName = fq, d_help = h, d_variableLabels = ls\<rparr>"

definition BuildFQName :: "string \<Rightarrow> string \<Rightarrow> string \<Rightarrow> string" where
  "BuildFQName ns subsystem nm =
     (if nm = [] then []
      else if ns \<noteq> [] \<and> subsystem \<noteq> [] then ns @ ''_'' @ subsystem @ ''_'' @ nm
      else if ns \<noteq> [] then ns @ ''_'' @ nm
      else if subsystem \<noteq> [] then subsystem @ ''_'' @ nm
      else nm)"

datatype valueType = CounterValue | GaugeValue | UntypedValue

text \<open>
  What \<^verbatim>\<open>Collect\<close> sends on the channel. The three housekeeping metrics are sent as the
  objects themselves (references to the exporter's fields); counter series and the
  histogram are constant metrics built for the cycle.
\<close>

datatype metric =
    UpRef
  | TotalScrapesRef
  | JsonParseFailuresRef
  | ConstMetric desc valueType float64 "string list"
  | ConstHistogram desc uint64 float64 "(float64 \<times> uint64) list"

fun is_histogram :: "metric \<Rightarrow> bool" where
  "is_histogram (ConstHistogram d c s b) = True"
| "is_histogram m = False"

fun is_counter_series :: "metric \<Rightarrow> bool" where
  "is_counter_series (ConstMetric d t v ls) = True"
| "is_counter_series m = False"

record exporter =
  HostURL :: string
  ServerType :: string
  ApiKey :: string
  up :: gauge
  totalScrapes :: counter
  jsonParseFailures :: counter
  gaugeMetrics :: "int \<rightharpoonup> gauge"
  counterMetrics :: "int \<rightharpoonup> desc"
  gaugeDefs :: "gaugeDefinition list"
  counterDefs :: "counterDefinition list"

text \<open>The iteration orders of the two \<^verbatim>\<open>range\<close> loops over catalog maps.\<close>

record mapOrder =
  labelOrder :: "(string \<times> string) list \<Rightarrow> (string \<times> string) list"
  bucketOrder :: "(string \<times> float64) list \<Rightarrow> (string \<times> float64) list"

definition is_mapOrder :: "mapOrder \<Rightarrow> bool" where
  "is_mapOrder rt \<longleftrightarrow>
     (\<forall>xs. mset (labelOrder rt xs) = mset xs) \<and> (\<forall>xs. mset (bucketOrder rt xs) = mset xs)"

definition sourceOrder :: mapOrder where
  "sourceOrder = \<lparr>labelOrder = (\<lambda>xs. xs), bucketOrder = (\<lambda>xs. xs)\<rparr>"

subsection \<open>The metric catalog\<close>

definition namespace :: string where
  "namespace = ''powerdns''"

definition rTimeBucketMap :: "(string \<times> float64) list" where
  "rTimeBucketMap =
     [(''answers0-1'', 1 / 1000),
      (''answers1-10'', 1 / 100),
      (''answers10-100'', 1 / 10),
      (''answers100-1000'', 1),
      (''answers-slow'', 0)]"

definition rTimeLabelMap :: "(string \<times> string) list" where
  "rTimeLabelMap =
     [(''answers0-1'', ''0_1ms''),
      (''answers1-10'', ''1_10ms''),
      (''answers10-100'', ''10_100ms''),
      (''answers100-1000'', ''100_1000ms''),
      (''answers-slow'', ''over_1000ms'')]"

definition rCodeLabelMap :: "(string \<times> string) list" where
  "rCodeLabelMap =
     [(''servfail-answers'', ''servfail''),
      (''nxdomain-answers'', ''nxdomain''),
      (''noerror-answers'', ''noerror'')]"

definition exceptionsLabelMap :: "(string \<times> string) list" where
  "exceptionsLabelMap =
     [(''resource-limits'', ''resource_limit''),
      (''over-capacity-drops'', ''over_capacity_drop''),
      (''unreachables'', ''ns_unreachable''),
      (''outgoing-timeouts'', ''outgoing_timeout'')]"

definition gaugeDef :: "int \<Rightarrow> string \<Rightarrow> string \<Rightarrow> string \<Rightarrow> gaugeDefinition" where
  "gaugeDef i n d k = \<lparr>gd_id = i, gd_name = n, gd_desc = d, gd_key = k\<rparr>"

definition counterDef ::
  "int \<Rightarrow> string \<Rightarrow> string \<Rightarrow> string \<Rightarrow> (string \<times> string) list \<Rightarrow> counterDefinition" where
  "counterDef i n d l m = \<lparr>cd_id = i, cd_name = n, cd_desc = d, cd_label = l, cd_labelMap = m\<rparr>"

definition recursorGaugeDefs :: "gaugeDefinition list" where
  "recursorGaugeDefs =
     [gaugeDef 1 ''latency_average_seconds''
        ''Exponential moving average of question-to-answer latency.'' ''qa_latency'',
      gaugeDef 2 ''concurrent_queries'' ''Number of concurrent queries.'' ''concurrent_queries'',
      gaugeDef 3 ''cache_size'' ''Number of entries in the cache.'' ''cache_entries'']"

definition recursorCounterDefs :: "counterDefinition list" where
  "recursorCounterDefs =
     [counterDef 1 ''incoming_queries_total'' ''Total number of incoming queries by network.''
        ''net'' [(''questions'', ''udp''), (''tcp-questions'', ''tcp'')],
      counterDef 2 ''outgoing_queries_total'' ''Total number of outgoing queries by network.''
        ''net'' [(''all-outqueries'', ''udp''), (''tcp-outqueries'', ''tcp'')],
      counterDef 3 ''cache_lookups_total'' ''Total number of cache lookups by result.''
        ''result'' [(''cache-hits'', ''hit''), (''cache-misses'', ''miss'')],
      counterDef 4 ''answers_rcodes_total'' ''Total number of answers by response code.''
        ''rcode'' rCodeLabelMap,
      counterDef 5 ''answers_rtime_total''
        ''Total number of answers grouped by response time slots.'' ''timeslot'' rTimeLabelMap,
      counterDef 6 ''exceptions_total'' ''Total number of exceptions by error.''
        ''error'' exceptionsLabelMap]"

definition authoritativeGaugeDefs :: "gaugeDefinition list" where
  "authoritativeGaugeDefs =
     [gaugeDef 6 ''security_status''
        ''PDNS Server Security status based on security-status.secpoll.powerdns.com''
        ''security-status'',
      gaugeDef 1 ''latency_average_seconds''
        ''Average number of microseconds a packet spends within PowerDNS'' ''latency'',
      gaugeDef 2 ''packet_cache_size'' ''Number of entries in the packet cache.''
        ''packetcache-size'',
      gaugeDef 3 ''signature_cache_size'' ''Number of entries in the signature cache.''
        ''signature-cache-size'',
      gaugeDef 4 ''key_cache_size'' ''Number of entries in the key cache.'' ''key-cache-size'',
      gaugeDef 5 ''metadata_cache_size'' ''Number of entries in the metadata cache.''
        ''meta-cache-size'',
      gaugeDef 6 ''qsize'' ''Number of packets waiting for database attention.'' ''qsize-q'']"

definition authoritativeCounterDefs :: "counterDefinition list" where
  "authoritativeCounterDefs =
     [counterDef 1 ''incoming_notifications'' ''Number of NOTIFY packets that were received''
        ''type'' [],
      counterDef 2 ''uptime'' ''Uptime in seconds of the daemon'' ''type''
        [(''uptime'', ''seconds'')],
      counterDef 3 ''dnssec'' ''DNSSEC counters'' ''type''
        [(''signatures'', ''signatures_created''), (''udp-do-queries'', ''ok_queries_recv'')],
      counterDef 4 ''packet_cache_lookup'' ''Packet cache lookups by result'' ''result''
        [(''packetcache-hit'', ''hit''), (''packetcache-miss'', ''miss'')],
      counterDef 5 ''query_cache_lookup'' ''Query cache lookups by result'' ''result''
        [(''query-cache-hit'', ''hit''), (''query-cache-miss'', ''miss'')],
      counterDef 6 ''deferred_cache_actions''
        ''Deferred cache actions because of maintenance by type'' ''type''
        [(''deferred-cache-inserts'', ''inserts''), (''deferred-cache-lookup'', ''lookups'')],
      counterDef 7 ''dnsupdate_queries_total'' ''Total number of DNS update queries by status.''
        ''status''
        [(''dnsupdate-answers'', ''answered''), (''dnsupdate-changes'', ''applied''),
         (''dnsupdate-queries'', ''requested''), (''dnsupdate-refused'', ''refused'')],
      counterDef 8 ''recursive_queries_total'' ''Total number of recursive queries by status.''
        ''status''
        [(''rd-queries'', ''requested''), (''recursing-questions'', ''processed''),
         (''recursing-answers'', ''answered''), (''recursion-unanswered'', ''unanswered'')],
      counterDef 9 ''queries_total'' ''Total number of queries by protocol.'' ''proto''
        [(''tcp-queries'', ''tcp''), (''tcp4-queries'', ''tcp4''), (''tcp6-queries'', ''tcp6''),
         (''udp-queries'', ''udp''), (''udp4-queries'', ''udp4''), (''udp6-queries'', ''udp6'')],
      counterDef 10 ''answers_total'' ''Total number of answers by protocol.'' ''proto''
        [(''tcp-answers'', ''tcp''), (''tcp4-answers'', ''tcp4''), (''tcp6-answers'', ''tcp6''),
         (''udp-answers'', ''udp''), (''udp4-answers'', ''udp4''), (''udp6-answers'', ''udp6'')],
      counterDef 11 ''answers_bytes_total''
        ''Total number of answer bytes sent over by protocol.'' ''proto''
        [(''tcp-answers-bytes'', ''tcp''), (''tcp4-answers-bytes'', ''tcp4''),
         (''tcp6-answers-bytes'', ''tcp6''), (''udp-answers-bytes'', ''udp''),
         (''udp4-answers-bytes'', ''udp4''), (''udp6-answers-bytes'', ''udp6'')],
      counterDef 12 ''exceptions_total'' ''Total number of exceptions by error.'' ''error''
        [(''servfail-packets'', ''servfail''), (''timedout-packets'', ''timeout''),
         (''corrupt-packets'', ''corrupt_packets''), (''overload-drops'', ''backend_overload''),
         (''udp-recvbuf-errors'', ''recvbuf_errors''), (''udp-sndbuf-errors'', ''sndbuf_errors''),
         (''udp-in-errors'', ''udo_in_errors''), (''udp-noport-errors'', ''udp_noport_errors'')],
      counterDef 13 ''cpu_utilisation''
        ''Number of CPU milliseconds spent in user, and kernel space'' ''type''
        [(''sys-msec'', ''sys''), (''user-msec'', ''user'')]]"

definition dnsdistGaugeDefs :: "gaugeDefinition list" where
  "dnsdistGaugeDefs = []"

definition dnsdistCounterDefs :: "counterDefinition list" where
  "dnsdistCounterDefs = []"

subsection \<open>The histogram builder\<close>

text \<open>
  \<^verbatim>\<open>uint64(value)\<close> truncates towards zero. For a value outside the range of \<^verbatim>\<open>uint64\<close>
  Go leaves the result to the implementation; the model reduces modulo \<open>2 ^ 64\<close> there, and
  no theorem below looks at such a value.
\<close>

definition uint64_of :: "float64 \<Rightarrow> uint64" where
  "uint64_of v = (if 0 \<le> v then word_of_int \<lfloor>v\<rfloor> else word_of_int \<lceil>v\<rceil>)"

text \<open>The first loop of \<^verbatim>\<open>makeRecursorRTimeHistogram\<close>, over the entries of \<^verbatim>\<open>rTimeBucketMap\<close>.\<close>

fun linearBuckets ::
  "(string \<times> float64) list \<Rightarrow> (string \<times> float64) list \<Rightarrow> (float64 \<times> uint64) list \<Rightarrow> uint64
     \<Rightarrow> error + ((float64 \<times> uint64) list \<times> uint64)" where
  "linearBuckets [] statsMap buckets cnt = Inr (buckets, cnt)"
| "linearBuckets ((k, v) # kvs) statsMap buckets cnt =
     (case map_of statsMap k of
        None \<Rightarrow> Inl (MissingKey k)
      | Some val \<Rightarrow>
          linearBuckets kvs statsMap
            (if v \<noteq> 0 then AList.update v (uint64_of val) buckets else buckets)
            (cnt + uint64_of val))"

text \<open>The second loop: the running sum over the sorted thresholds. A Go map read of an
  absent key gives the zero value.\<close>

fun cumulativeBuckets ::
  "float64 list \<Rightarrow> (float64 \<times> uint64) list \<Rightarrow> uint64 \<Rightarrow> (float64 \<times> uint64) list" where
  "cumulativeBuckets [] buckets cumsum = buckets"
| "cumulativeBuckets (k # ks) buckets cumsum =
     (let cumsum' = cumsum + (case map_of buckets k of None \<Rightarrow> 0 | Some c \<Rightarrow> c)
      in cumulativeBuckets ks (AList.update k cumsum' buckets) cumsum')"

definition rTimeHistogramDesc :: desc where
  "rTimeHistogramDesc =
     NewDesc (namespace @ ''_recursor_response_time_seconds'')
       ''Histogram of PowerDNS recursor response times in seconds.'' []"

text \<open>
  The keys of \<open>buckets\<close> are collected in the map's order and then sorted; sorting makes
  the order of collection irrelevant, so they are collected in the list's order.
\<close>

definition makeRecursorRTimeHistogram ::
  "mapOrder \<Rightarrow> (string \<times> float64) list \<Rightarrow> error + metric" where
  "makeRecursorRTimeHistogram rt statsMap =
     (case linearBuckets (bucketOrder rt rTimeBucketMap) statsMap [] 0 of
        Inl err \<Rightarrow> Inl err
      | Inr (buckets, cnt) \<Rightarrow>
          (let keys = sort (map fst buckets)
           in Inr (ConstHistogram rTimeHistogramDesc cnt 0
                     (cumulativeBuckets keys buckets 0))))"

subsection \<open>The exporter\<close>

definition newGaugeMetric :: "string \<Rightarrow> string \<Rightarrow> string \<Rightarrow> gauge" where
  "newGaugeMetric serverType metricName docString =
     \<lparr>g_namespace = namespace, g_subsystem = serverType, g_name = metricName,
      g_help = docString, g_value = 0\<rparr>"

definition NewExporter :: "string \<Rightarrow> string \<Rightarrow> string \<Rightarrow> exporter" where
  "NewExporter apiKey serverType hostURL =
     (let gDefs =
            (if serverType = ''recursor'' then recursorGaugeDefs
             else if serverType = ''authoritative'' then authoritativeGaugeDefs
             else if serverType = ''dnsdist'' then dnsdistGaugeDefs
             else []);
          cDefs =
            (if serverType = ''recursor'' then recursorCounterDefs
             else if serverType = ''authoritative'' then authoritativeCounterDefs
             else if serverType = ''dnsdist'' then dnsdistCounterDefs
             else [])
      in \<lparr>HostURL = hostURL,
          ServerType = serverType,
          ApiKey = apiKey,
          up = \<lparr>g_namespace = namespace, g_subsystem = serverType, g_name = ''up'',
                g_help = ''Was the last scrape of PowerDNS successful.'', g_value = 0\<rparr>,
          totalScrapes = \<lparr>c_namespace = namespace, c_subsystem = serverType,
                c_name = ''exporter_total_scrapes'',
                c_help = ''Current total PowerDNS scrapes.'', c_value = 0\<rparr>,
          jsonParseFailures = \<lparr>c_namespace = namespace, c_subsystem = serverType,
                c_name = ''exporter_json_parse_failures'',
                c_help = ''Number of errors while parsing PowerDNS JSON stats.'', c_value = 0\<rparr>,
          gaugeMetrics =
            fold (\<lambda>d m. m(gd_id d \<mapsto> newGaugeMetric serverType (gd_name d) (gd_desc d)))
              gDefs Map.empty,
          counterMetrics =
            fold (\<lambda>d m. m(cd_id d \<mapsto>
                    NewDesc (BuildFQName namespace serverType (cd_name d)) (cd_desc d)
                      [cd_label d]))
              cDefs Map.empty,
          gaugeDefs = gDefs,
          counterDefs = cDefs\<rparr>)"

subsection \<open>One collection cycle\<close>

text \<open>
  \<^verbatim>\<open>scrape\<close> runs in its own goroutine. Its argument \<open>fetched\<close> is what \<^verbatim>\<open>getJSON\<close> returned
  for the statistics endpoint. The second component of the result is what the channel
  \<^verbatim>\<open>jsonStats\<close> delivers: \<open>Some data\<close> when the data were sent, \<open>None\<close> when the channel
  was closed with nothing sent.
\<close>

definition scrape ::
  "error + StatsEntry list \<Rightarrow> exporter \<Rightarrow> exporter \<times> StatsEntry list option" where
  "scrape fetched e =
     (let e1 = e\<lparr>totalScrapes := counter_Inc (totalScrapes e)\<rparr>
      in case fetched of
           Inl err \<Rightarrow>
             (e1\<lparr>up := gauge_Set 0 (up e1),
                 jsonParseFailures := counter_Inc (jsonParseFailures e1)\<rparr>, None)
         | Inr data \<Rightarrow> (e1\<lparr>up := gauge_Set 1 (up e1)\<rparr>, Some data))"

text \<open>\<^verbatim>\<open>statsMap[s.Name] = s.Value\<close> for every entry, in the order received.\<close>

definition buildStatsMap :: "StatsEntry list \<Rightarrow> (string \<times> float64) list" where
  "buildStatsMap stats = fold (\<lambda>s m. AList.update (Name s) (Value s) m) stats []"

text \<open>\<^verbatim>\<open>strings.HasSuffix\<close>.\<close>

definition HasSuffix :: "string \<Rightarrow> string \<Rightarrow> bool" where
  "HasSuffix s suffix \<longleftrightarrow>
     length suffix \<le> length s \<and> drop (length s - length suffix) s = suffix"

text \<open>
  The loop over the gauge definitions: the gauge object of the definition's id is set in
  place. The loop sends nothing on the channel.
\<close>

fun collectGauges ::
  "(string \<times> float64) list \<Rightarrow> gaugeDefinition list \<Rightarrow> exporter \<Rightarrow> exporter option" where
  "collectGauges statsMap [] e = Some e"
| "collectGauges statsMap (d # ds) e =
     (case map_of statsMap (gd_key d) of
        Some v \<Rightarrow>
          (let val = (if HasSuffix (gd_key d) ''latency'' then v / 1000000 else v)
           in case gaugeMetrics e (gd_id d) of
                None \<Rightarrow> None
              | Some g \<Rightarrow>
                  collectGauges statsMap ds
                    (e\<lparr>gaugeMetrics := (gaugeMetrics e)(gd_id d \<mapsto> gauge_Set val g)\<rparr>))
      | None \<Rightarrow>
          collectGauges statsMap ds
            (e\<lparr>jsonParseFailures := counter_Inc (jsonParseFailures e)\<rparr>))"

text \<open>The inner loop over one counter definition's label map, in the order given.\<close>

fun collectLabels ::
  "(string \<times> float64) list \<Rightarrow> counterDefinition \<Rightarrow> (string \<times> string) list \<Rightarrow> exporter
     \<Rightarrow> (exporter \<times> metric list) option" where
  "collectLabels statsMap d [] e = Some (e, [])"
| "collectLabels statsMap d ((k, label) # kls) e =
     (case map_of statsMap k of
        Some v \<Rightarrow>
          (case counterMetrics e (cd_id d) of
             None \<Rightarrow> None
           | Some dsc \<Rightarrow>
               (case collectLabels statsMap d kls e of
                  None \<Rightarrow> None
                | Some (e', ms) \<Rightarrow> Some (e', ConstMetric dsc CounterValue v [label] # ms)))
      | None \<Rightarrow>
          collectLabels statsMap d kls
            (e\<lparr>jsonParseFailures := counter_Inc (jsonParseFailures e)\<rparr>))"

text \<open>The outer loop over the counter definitions.\<close>

fun collectCounters ::
  "mapOrder \<Rightarrow> (string \<times> float64) list \<Rightarrow> counterDefinition list \<Rightarrow> exporter
     \<Rightarrow> (exporter \<times> metric list) option" where
  "collectCounters rt statsMap [] e = Some (e, [])"
| "collectCounters rt statsMap (d # ds) e =
     (case collectLabels statsMap d (labelOrder rt (cd_labelMap d)) e of
        None \<Rightarrow> None
      | Some (e1, ms1) \<Rightarrow>
          (case collectCounters rt statsMap ds e1 of
             None \<Rightarrow> None
           | Some (e2, ms2) \<Rightarrow> Some (e2, ms1 @ ms2)))"

text \<open>The last step of \<^verbatim>\<open>collectMetrics\<close>: the histogram, for a recursor only.\<close>

definition collectHistogram ::
  "mapOrder \<Rightarrow> (string \<times> float64) list \<Rightarrow> exporter \<Rightarrow> exporter \<times> metric list" where
  "collectHistogram rt statsMap e =
     (if ServerType e = ''recursor'' then
        (case makeRecursorRTimeHistogram rt statsMap of
           Inl err \<Rightarrow> (e, [])
         | Inr h \<Rightarrow> (e, [h]))
      else (e, []))"

definition collectMetrics ::
  "mapOrder \<Rightarrow> StatsEntry list option \<Rightarrow> exporter \<Rightarrow> (exporter \<times> metric list) option" where
  "collectMetrics rt jsonStats e =
     (let stats = (case jsonStats of None \<Rightarrow> [] | Some data \<Rightarrow> data);
          statsMap = buildStatsMap stats
      in if length statsMap = 0 then Some (e, [])
         else
           (case collectGauges statsMap (gaugeDefs e) e of
              None \<Rightarrow> None
            | Some e1 \<Rightarrow>
                (case collectCounters rt statsMap (counterDefs e1) e1 of
                   None \<Rightarrow> None
                 | Some (e2, cs) \<Rightarrow>
                     (let (e3, hs) = collectHistogram rt statsMap e2
                      in Some (e3, cs @ hs)))))"

text \<open>
  \<^verbatim>\<open>Collect\<close> starts \<^verbatim>\<open>scrape\<close>, sends the three housekeeping objects and calls
  \<^verbatim>\<open>collectMetrics\<close>, which first waits on the channel: every write of \<^verbatim>\<open>scrape\<close> is done
  before \<^verbatim>\<open>collectMetrics\<close> goes on, and the three objects are sent by reference. The state
  after the cycle and the sequence sent are therefore those of running \<^verbatim>\<open>scrape\<close> first.
\<close>

definition Collect ::
  "mapOrder \<Rightarrow> error + StatsEntry list \<Rightarrow> exporter \<Rightarrow> (exporter \<times> metric list) option" where
  "Collect rt fetched e =
     (let (e1, jsonStats) = scrape fetched e
      in case collectMetrics rt jsonStats e1 of
           None \<Rightarrow> None
         | Some (e2, ms) \<Rightarrow> Some (e2, [UpRef, TotalScrapesRef, JsonParseFailuresRef] @ ms))"

text \<open>The exporters that exist at run time: a new one, and one after any number of cycles.\<close>

inductive reachable :: "exporter \<Rightarrow> bool" where
  reachable_new: "reachable (NewExporter apiKey serverType hostURL)"
| reachable_cycle:
    "reachable e \<Longrightarrow> is_mapOrder rt \<Longrightarrow> Collect rt fetched e = Some (e', ms) \<Longrightarrow> reachable e'"

section \<open>Properties\<close>

subsection \<open>Cycles that end early\<close>

lemma buildStatsMap_Nil: "buildStatsMap [] = []"
  by (simp add: buildStatsMap_def)

lemma Collect_failure:
  "Collect rt (Inl err) e =
     Some (e\<lparr>up := gauge_Set 0 (up e),
             totalScrapes := counter_Inc (totalScrapes e),
             jsonParseFailures := counter_Inc (jsonParseFailures e)\<rparr>,
           [UpRef, TotalScrapesRef, JsonParseFailuresRef])"
  by (simp add: Collect_def scrape_def collectMetrics_def buildStatsMap_Nil)

lemma Collect_empty:
  "Collect rt (Inr []) e =
     Some (e\<lparr>up := gauge_Set 1 (up e), totalScrapes := counter_Inc (totalScrapes e)\<rparr>,
           [UpRef, TotalScrapesRef, JsonParseFailuresRef])"
  by (simp add: Collect_def scrape_def collectMetrics_def buildStatsMap_Nil)

text \<open>
  C1. When the statistics fetch or the JSON decoding fails, the cycle sends exactly the
  three housekeeping metrics, sets \<open>up\<close> to 0 and increments both
  \<open>jsonParseFailures\<close> and \<open>totalScrapes\<close> by one; nothing else changes.
\<close>

theorem Collect_fetch_failure:
  "Collect rt (Inl err) e =
     Some (e\<lparr>up := gauge_Set 0 (up e),
             totalScrapes := counter_Inc (totalScrapes e),
             jsonParseFailures := counter_Inc (jsonParseFailures e)\<rparr>,
           [UpRef, TotalScrapesRef, JsonParseFailuresRef]) \<and>
   g_value (gauge_Set 0 (up e)) = 0 \<and>
   c_value (counter_Inc (totalScrapes e)) = c_value (totalScrapes e) + 1 \<and>
   c_value (counter_Inc (jsonParseFailures e)) = c_value (jsonParseFailures e) + 1"
  by (simp add: Collect_failure gauge_Set_def counter_Inc_def)

text \<open>
  C3. When the fetch succeeds with an empty statistics list, the cycle sets \<open>up\<close> to 1,
  counts the scrape and sends only the three housekeeping metrics;
  \<open>jsonParseFailures\<close> is left as it was.
\<close>

theorem Collect_empty_snapshot:
  "Collect rt (Inr []) e =
     Some (e\<lparr>up := gauge_Set 1 (up e), totalScrapes := counter_Inc (totalScrapes e)\<rparr>,
           [UpRef, TotalScrapesRef, JsonParseFailuresRef]) \<and>
   g_value (gauge_Set 1 (up e)) = 1"
  by (simp add: Collect_empty gauge_Set_def)

subsection \<open>The loops of the histogram builder\<close>

lemma linearBuckets_missing:
  "(k, v) \<in> set kvs \<Longrightarrow> map_of sm k = None \<Longrightarrow>
   \<exists>k'. linearBuckets kvs sm b c = Inl (MissingKey k') \<and> k' \<in> fst ` set kvs \<and> map_of sm k' = None"
proof (induction kvs arbitrary: b c)
  case Nil
  then show ?case by simp
next
  case (Cons a kvs)
  obtain k0 v0 where a: "a = (k0, v0)" by (cases a)
  show ?case
  proof (cases "map_of sm k0")
    case None
    then show ?thesis using a by auto
  next
    case (Some x)
    with Cons.prems a have "(k, v) \<in> set kvs" by auto
    from Cons.IH [OF this Cons.prems(2)] obtain k' where
      "linearBuckets kvs sm (if v0 \<noteq> 0 then AList.update v0 (uint64_of x) b else b) (c + uint64_of x)
         = Inl (MissingKey k')" "k' \<in> fst ` set kvs" "map_of sm k' = None"
      by blast
    then show ?thesis using Some a by (intro exI [of _ k']) simp
  qed
qed

lemma linearBuckets_present:
  "\<forall>k \<in> fst ` set kvs. map_of sm k \<noteq> None \<Longrightarrow> distinct (map snd kvs) \<Longrightarrow>
   \<exists>b'. linearBuckets kvs sm b c =
           Inr (b', c + sum_list (map (\<lambda>kv. uint64_of (the (map_of sm (fst kv)))) kvs))
     \<and> (\<forall>k v. (k, v) \<in> set kvs \<longrightarrow> v \<noteq> 0 \<longrightarrow> map_of b' v = Some (uint64_of (the (map_of sm k))))
     \<and> (\<forall>t. t \<notin> snd ` set kvs \<or> t = 0 \<longrightarrow> map_of b' t = map_of b t)
     \<and> fst ` set b' = fst ` set b \<union> {v \<in> snd ` set kvs. v \<noteq> 0}
     \<and> (distinct (map fst b) \<longrightarrow> distinct (map fst b'))"
proof (induction kvs arbitrary: b c)
  case Nil
  then show ?case by simp
next
  case (Cons a kvs)
  obtain k0 v0 where a: "a = (k0, v0)" by (cases a)
  from Cons.prems a obtain x where x: "map_of sm k0 = Some x" by auto
  define b1 where "b1 = (if v0 \<noteq> 0 then AList.update v0 (uint64_of x) b else b)"
  have pres: "\<forall>k \<in> fst ` set kvs. map_of sm k \<noteq> None" using Cons.prems(1) by auto
  have dist: "distinct (map snd kvs)" and v0: "v0 \<notin> snd ` set kvs"
    using Cons.prems(2) a by auto
  from Cons.IH [OF pres dist, of b1 "c + uint64_of x"] obtain b' where
    r: "linearBuckets kvs sm b1 (c + uint64_of x) =
          Inr (b', c + uint64_of x + sum_list (map (\<lambda>kv. uint64_of (the (map_of sm (fst kv)))) kvs))"
    and p1: "\<forall>k v. (k, v) \<in> set kvs \<longrightarrow> v \<noteq> 0 \<longrightarrow> map_of b' v = Some (uint64_of (the (map_of sm k)))"
    and p2: "\<forall>t. t \<notin> snd ` set kvs \<or> t = 0 \<longrightarrow> map_of b' t = map_of b1 t"
    and p3: "fst ` set b' = fst ` set b1 \<union> {v \<in> snd ` set kvs. v \<noteq> 0}"
    and p4: "distinct (map fst b1) \<longrightarrow> distinct (map fst b')"
    by (elim exE conjE) (rule that)
  have e: "linearBuckets (a # kvs) sm b c =
          Inr (b', c + sum_list (map (\<lambda>kv. uint64_of (the (map_of sm (fst kv)))) (a # kvs)))"
    using r x a by (simp add: b1_def add.assoc)
  have q1: "\<forall>k v. (k, v) \<in> set (a # kvs) \<longrightarrow> v \<noteq> 0 \<longrightarrow> map_of b' v = Some (uint64_of (the (map_of sm k)))"
  proof (intro allI impI)
    fix k v assume kv: "(k, v) \<in> set (a # kvs)" and nz: "v \<noteq> 0"
    show "map_of b' v = Some (uint64_of (the (map_of sm k)))"
    proof (cases "(k, v) \<in> set kvs")
      case True with p1 nz show ?thesis by blast
    next
      case False
      with kv a have "k = k0" "v = v0" by auto
      with p2 v0 nz x show ?thesis by (simp add: b1_def update_conv')
    qed
  qed
  have q2: "\<forall>t. t \<notin> snd ` set (a # kvs) \<or> t = 0 \<longrightarrow> map_of b' t = map_of b t"
  proof (intro allI impI)
    fix t assume t: "t \<notin> snd ` set (a # kvs) \<or> t = 0"
    then have "t \<notin> snd ` set kvs \<or> t = 0" by auto
    with p2 have "map_of b' t = map_of b1 t" by blast
    also have "map_of b1 t = map_of b t" using t a by (auto simp: b1_def update_conv')
    finally show "map_of b' t = map_of b t" .
  qed
  have "fst ` set b1 = fst ` set b \<union> (if v0 \<noteq> 0 then {v0} else {})"
    by (simp add: b1_def dom_update)
  then have q3: "fst ` set b' = fst ` set b \<union> {v \<in> snd ` set (a # kvs). v \<noteq> 0}"
    unfolding p3 a by auto
  have q4: "distinct (map fst b) \<longrightarrow> distinct (map fst b')"
    using p4 by (simp add: b1_def distinct_update)
  from e q1 q2 q3 q4 show ?case by (intro exI [of _ b'] conjI)
qed

lemma bucketOrder_set:
  "is_mapOrder rt \<Longrightarrow> set (bucketOrder rt xs) = set xs"
proof -
  assume "is_mapOrder rt"
  then have "mset (bucketOrder rt xs) = mset xs" by (simp add: is_mapOrder_def)
  then show ?thesis by (rule mset_eq_setD)
qed

lemma bucketOrder_distinct:
  assumes "is_mapOrder rt" and "distinct (map snd xs)"
  shows "distinct (map snd (bucketOrder rt xs))"
proof -
  have "mset (map snd (bucketOrder rt xs)) = mset (map snd xs)"
    using assms(1) by (simp add: is_mapOrder_def)
  from mset_eq_imp_distinct_iff [OF this] assms(2) show ?thesis by blast
qed

lemma bucketOrder_sum:
  fixes f :: "string \<times> float64 \<Rightarrow> uint64"
  assumes "is_mapOrder rt"
  shows "sum_list (map f (bucketOrder rt xs)) = sum_list (map f xs)"
proof -
  have "mset (map f (bucketOrder rt xs)) = mset (map f xs)"
    using assms by (simp add: is_mapOrder_def)
  then have "sum_mset (mset (map f (bucketOrder rt xs))) = sum_mset (mset (map f xs))"
    by (rule arg_cong)
  then show ?thesis by (simp only: sum_mset_sum_list)
qed

lemma sorted_keys:
  fixes ks :: "float64 list"
  assumes "distinct ks" and "set ks = {1 / 1000, 1 / 100, 1 / 10, 1}"
  shows "sort ks = [1 / 1000, 1 / 100, 1 / 10, 1]"
proof (rule sorted_distinct_set_unique)
  show "sorted (sort ks)" by simp
  show "distinct (sort ks)" using assms(1) by simp
  show "sorted [1 / 1000, 1 / 100, 1 / 10, 1 :: float64]" by simp
  show "distinct [1 / 1000, 1 / 100, 1 / 10, 1 :: float64]" by simp
  show "set (sort ks) = set [1 / 1000, 1 / 100, 1 / 10, 1]" using assms(2) by simp
qed

lemma cumulativeBuckets_step:
  "map_of b k = Some u \<Longrightarrow>
   cumulativeBuckets (k # ks) b c = cumulativeBuckets ks (AList.update k (c + u) b) (c + u)"
  by (simp add: Let_def)

lemma cumulativeBuckets_four:
  fixes b :: "(float64 \<times> uint64) list"
  assumes "map_of b (1 / 1000) = Some u1" "map_of b (1 / 100) = Some u2"
    "map_of b (1 / 10) = Some u3" "map_of b 1 = Some u4"
  shows "cumulativeBuckets [1 / 1000, 1 / 100, 1 / 10, 1] b 0 =
           AList.update 1 (u1 + u2 + u3 + u4)
             (AList.update (1 / 10) (u1 + u2 + u3)
               (AList.update (1 / 100) (u1 + u2)
                 (AList.update (1 / 1000) u1 b)))"
proof -
  let ?b1 = "AList.update (1 / 1000) u1 b"
  let ?b2 = "AList.update (1 / 100) (u1 + u2) ?b1"
  let ?b3 = "AList.update (1 / 10) (u1 + u2 + u3) ?b2"
  have s1: "cumulativeBuckets [1 / 1000, 1 / 100, 1 / 10, 1] b 0 =
            cumulativeBuckets [1 / 100, 1 / 10, 1] ?b1 u1"
    using cumulativeBuckets_step [OF assms(1), of "[1 / 100, 1 / 10, 1]" 0] by simp
  have "map_of ?b1 (1 / 100) = Some u2" using assms(2) by (simp add: update_conv')
  from cumulativeBuckets_step [OF this, of "[1 / 10, 1]" u1]
  have s2: "cumulativeBuckets [1 / 100, 1 / 10, 1] ?b1 u1 = cumulativeBuckets [1 / 10, 1] ?b2 (u1 + u2)" .
  have "map_of ?b2 (1 / 10) = Some u3" using assms(3) by (simp add: update_conv')
  from cumulativeBuckets_step [OF this, of "[1]" "u1 + u2"]
  have s3: "cumulativeBuckets [1 / 10, 1] ?b2 (u1 + u2) = cumulativeBuckets [1] ?b3 (u1 + u2 + u3)" .
  have "map_of ?b3 1 = Some u4" using assms(4) by (simp add: update_conv')
  from cumulativeBuckets_step [OF this, of "[]" "u1 + u2 + u3"]
  have s4: "cumulativeBuckets [1] ?b3 (u1 + u2 + u3) = AList.update 1 (u1 + u2 + u3 + u4) ?b3"
    by simp
  from s1 s2 s3 s4 show ?thesis by (simp only:)
qed

lemma rTimeBucketMap_keys:
  "fst ` set rTimeBucketMap =
     {''answers0-1'', ''answers1-10'', ''answers10-100'', ''answers100-1000'', ''answers-slow''}"
  by (simp add: rTimeBucketMap_def)

lemma nonzero_keys:
  fixes a :: float64
  shows "a \<noteq> 0 \<Longrightarrow> b \<noteq> 0 \<Longrightarrow> c \<noteq> 0 \<Longrightarrow> d \<noteq> 0 \<Longrightarrow>
         {v \<in> {a, b, c, d, 0}. v \<noteq> 0} = {a, b, c, d}"
  by blast

lemma other_keys:
  fixes a :: float64
  shows "t \<notin> {a, b, c, d} \<Longrightarrow> t \<notin> {a, b, c, d, 0} \<or> t = 0"
  by blast

lemma histogram_buckets:
  assumes rt: "is_mapOrder rt"
    and v1: "map_of sm ''answers0-1'' = Some v1"
    and v2: "map_of sm ''answers1-10'' = Some v2"
    and v3: "map_of sm ''answers10-100'' = Some v3"
    and v4: "map_of sm ''answers100-1000'' = Some v4"
    and v5: "map_of sm ''answers-slow'' = Some v5"
  shows "\<exists>b. makeRecursorRTimeHistogram rt sm =
           Inr (ConstHistogram rTimeHistogramDesc
                 (uint64_of v1 + uint64_of v2 + uint64_of v3 + uint64_of v4 + uint64_of v5) 0 b)
         \<and> map_of b = [1 / 1000 \<mapsto> uint64_of v1,
                       1 / 100 \<mapsto> uint64_of v1 + uint64_of v2,
                       1 / 10 \<mapsto> uint64_of v1 + uint64_of v2 + uint64_of v3,
                       1 \<mapsto> uint64_of v1 + uint64_of v2 + uint64_of v3 + uint64_of v4]"
proof -
  let ?kvs = "bucketOrder rt rTimeBucketMap"
  let ?f = "\<lambda>kv :: string \<times> float64. uint64_of (the (map_of sm (fst kv)))"
  have set_kvs: "set ?kvs = set rTimeBucketMap" by (rule bucketOrder_set [OF rt])
  have pres: "\<forall>k \<in> fst ` set ?kvs. map_of sm k \<noteq> None"
    unfolding set_kvs rTimeBucketMap_keys using v1 v2 v3 v4 v5 by simp
  have "distinct (map snd rTimeBucketMap)" by (simp add: rTimeBucketMap_def)
  then have dist: "distinct (map snd ?kvs)" by (rule bucketOrder_distinct [OF rt])
  let ?e = "[] :: (float64 \<times> uint64) list"
  from linearBuckets_present [OF pres dist, of ?e 0] obtain b' where
    lin: "linearBuckets ?kvs sm [] 0 = Inr (b', 0 + sum_list (map ?f ?kvs))"
    and look: "\<forall>k v. (k, v) \<in> set ?kvs \<longrightarrow> v \<noteq> 0 \<longrightarrow> map_of b' v = Some (uint64_of (the (map_of sm k)))"
    and other: "\<forall>t. t \<notin> snd ` set ?kvs \<or> t = 0 \<longrightarrow> map_of b' t = map_of ?e t"
    and keys: "fst ` set b' = fst ` set ?e \<union> {v \<in> snd ` set ?kvs. v \<noteq> 0}"
    and dk: "distinct (map fst ?e) \<longrightarrow> distinct (map fst b')"
    apply (elim exE conjE)
    apply (rule that)
    apply assumption
    apply assumption
    apply assumption
    apply assumption
    apply assumption
    done
  have total: "sum_list (map ?f ?kvs) =
      uint64_of v1 + uint64_of v2 + uint64_of v3 + uint64_of v4 + uint64_of v5"
    unfolding bucketOrder_sum [OF rt] using v1 v2 v3 v4 v5 by (simp add: rTimeBucketMap_def)
  have b1: "map_of b' (1 / 1000) = Some (uint64_of v1)"
    using look [rule_format, of "''answers0-1''" "1 / 1000"] v1
    unfolding set_kvs by (simp add: rTimeBucketMap_def)
  have b2: "map_of b' (1 / 100) = Some (uint64_of v2)"
    using look [rule_format, of "''answers1-10''" "1 / 100"] v2
    unfolding set_kvs by (simp add: rTimeBucketMap_def)
  have b3: "map_of b' (1 / 10) = Some (uint64_of v3)"
    using look [rule_format, of "''answers10-100''" "1 / 10"] v3
    unfolding set_kvs by (simp add: rTimeBucketMap_def)
  have b4: "map_of b' 1 = Some (uint64_of v4)"
    using look [rule_format, of "''answers100-1000''" 1] v4
    unfolding set_kvs by (simp add: rTimeBucketMap_def)
  have snd_kvs: "snd ` set ?kvs = {1 / 1000, 1 / 100, 1 / 10, 1, 0}"
    unfolding set_kvs by (simp add: rTimeBucketMap_def)
  have "{v \<in> {1 / 1000, 1 / 100, 1 / 10, 1, 0 :: float64}. v \<noteq> 0} = {1 / 1000, 1 / 100, 1 / 10, 1}"
    by (rule nonzero_keys) simp_all
  then have keyset: "set (map fst b') = {1 / 1000, 1 / 100, 1 / 10, 1}"
    using keys unfolding snd_kvs by simp
  have "distinct (map fst b')" using dk by simp
  then have sorted: "sort (map fst b') = [1 / 1000, 1 / 100, 1 / 10, 1]"
    using keyset by (rule sorted_keys)
  have none: "map_of b' t = None" if "t \<notin> {1 / 1000, 1 / 100, 1 / 10, 1}" for t
  proof -
    from that have "t \<notin> snd ` set ?kvs \<or> t = 0" unfolding snd_kvs by (rule other_keys)
    with other show ?thesis by simp
  qed
  let ?b = "cumulativeBuckets [1 / 1000, 1 / 100, 1 / 10, 1] b' 0"
  have res: "makeRecursorRTimeHistogram rt sm =
      Inr (ConstHistogram rTimeHistogramDesc
            (uint64_of v1 + uint64_of v2 + uint64_of v3 + uint64_of v4 + uint64_of v5) 0 ?b)"
    by (simp add: makeRecursorRTimeHistogram_def lin total sorted)
  have "map_of ?b t = [1 / 1000 \<mapsto> uint64_of v1,
                       1 / 100 \<mapsto> uint64_of v1 + uint64_of v2,
                       1 / 10 \<mapsto> uint64_of v1 + uint64_of v2 + uint64_of v3,
                       1 \<mapsto> uint64_of v1 + uint64_of v2 + uint64_of v3 + uint64_of v4] t" for t
    unfolding cumulativeBuckets_four [OF b1 b2 b3 b4] using none [of t]
    by (simp add: update_conv')
  then have "map_of ?b = [1 / 1000 \<mapsto> uint64_of v1,
                       1 / 100 \<mapsto> uint64_of v1 + uint64_of v2,
                       1 / 10 \<mapsto> uint64_of v1 + uint64_of v2 + uint64_of v3,
                       1 \<mapsto> uint64_of v1 + uint64_of v2 + uint64_of v3 + uint64_of v4]"
    by (rule ext)
  with res show ?thesis by (intro exI [of _ ?b] conjI)
qed

subsection \<open>The gauge loop\<close>

lemma buildStatsMap_fold_nonempty:
  "fold (\<lambda>s m. AList.update (Name s) (Value s) m) stats m0 = [] \<longleftrightarrow> stats = [] \<and> m0 = []"
proof (induction stats arbitrary: m0)
  case Nil
  then show ?case by simp
next
  case (Cons s stats)
  have "AList.update (Name s) (Value s) m0 \<noteq> []"
    by (cases m0) (auto split: if_splits)
  with Cons show ?case by simp
qed

lemma buildStatsMap_empty_iff: "buildStatsMap stats = [] \<longleftrightarrow> stats = []"
  by (simp add: buildStatsMap_def buildStatsMap_fold_nonempty)

lemma collectGauges_absent:
  "map_of sm (gd_key d) = None \<Longrightarrow>
   collectGauges sm (d # ds) e =
     collectGauges sm ds (e\<lparr>jsonParseFailures := counter_Inc (jsonParseFailures e)\<rparr>)"
  by simp

lemma collectGauges_present:
  "map_of sm (gd_key d) = Some v \<Longrightarrow> gaugeMetrics e (gd_id d) = Some g \<Longrightarrow>
   collectGauges sm (d # ds) e =
     collectGauges sm ds
       (e\<lparr>gaugeMetrics := (gaugeMetrics e)(gd_id d \<mapsto>
            gauge_Set (if HasSuffix (gd_key d) ''latency'' then v / 1000000 else v) g)\<rparr>)"
  by (simp add: Let_def)

lemma collectGauges_panic:
  "map_of sm (gd_key d) = Some v \<Longrightarrow> gaugeMetrics e (gd_id d) = None \<Longrightarrow>
   collectGauges sm (d # ds) e = None"
  by (simp add: Let_def)

lemma gauge_update_dom:
  "gaugeMetrics e k = Some g \<Longrightarrow>
   dom (gaugeMetrics (e\<lparr>gaugeMetrics := (gaugeMetrics e)(k \<mapsto> w)\<rparr>)) = dom (gaugeMetrics e)"
proof -
  assume "gaugeMetrics e k = Some g"
  then have "insert k (dom (gaugeMetrics e)) = dom (gaugeMetrics e)"
    by (simp add: insert_absorb domI)
  moreover have "gaugeMetrics (e\<lparr>gaugeMetrics := (gaugeMetrics e)(k \<mapsto> w)\<rparr>) = (gaugeMetrics e)(k \<mapsto> w)"
    by simp
  ultimately show ?thesis by (simp only: dom_fun_upd option.simps if_False)
qed

lemma collectGauges_frame:
  "collectGauges sm ds e = Some e' \<Longrightarrow>
     HostURL e' = HostURL e \<and> ServerType e' = ServerType e \<and> ApiKey e' = ApiKey e \<and>
     up e' = up e \<and> totalScrapes e' = totalScrapes e \<and>
     counterMetrics e' = counterMetrics e \<and> gaugeDefs e' = gaugeDefs e \<and>
     counterDefs e' = counterDefs e \<and> dom (gaugeMetrics e') = dom (gaugeMetrics e)"
proof (induction ds arbitrary: e)
  case Nil
  then show ?case by simp
next
  case (Cons d ds)
  show ?case
  proof (cases "map_of sm (gd_key d)")
    case None
    from Cons.prems have
      "collectGauges sm ds (e\<lparr>jsonParseFailures := counter_Inc (jsonParseFailures e)\<rparr>) = Some e'"
      by (simp only: collectGauges_absent [OF None])
    from Cons.IH [OF this] show ?thesis by simp
  next
    case (Some v)
    show ?thesis
    proof (cases "gaugeMetrics e (gd_id d)")
      case None
      from Cons.prems collectGauges_panic [OF Some None, of ds] show ?thesis by simp
    next
      case g: (Some g)
      define e1 where "e1 = e\<lparr>gaugeMetrics := (gaugeMetrics e)(gd_id d \<mapsto>
        gauge_Set (if HasSuffix (gd_key d) ''latency'' then v / 1000000 else v) g)\<rparr>"
      have sel: "HostURL e1 = HostURL e" "ServerType e1 = ServerType e" "ApiKey e1 = ApiKey e"
        "up e1 = up e" "totalScrapes e1 = totalScrapes e" "counterMetrics e1 = counterMetrics e"
        "gaugeDefs e1 = gaugeDefs e" "counterDefs e1 = counterDefs e"
        by (simp_all add: e1_def)
      have d1: "dom (gaugeMetrics e1) = dom (gaugeMetrics e)"
        unfolding e1_def by (rule gauge_update_dom [OF g])
      from Cons.prems have "collectGauges sm ds e1 = Some e'"
        by (simp only: collectGauges_present [OF Some g] e1_def)
      from Cons.IH [OF this] show ?thesis by (simp only: sel d1)
    qed
  qed
qed

lemma collectGauges_failures:
  "collectGauges sm ds e = Some e' \<Longrightarrow>
     jsonParseFailures e' =
       (jsonParseFailures e)\<lparr>c_value := c_value (jsonParseFailures e) +
          length (filter (\<lambda>d. map_of sm (gd_key d) = None) ds)\<rparr>"
proof (induction ds arbitrary: e)
  case Nil
  then show ?case by simp
next
  case (Cons d ds)
  show ?case
  proof (cases "map_of sm (gd_key d)")
    case None
    from Cons.prems have
      "collectGauges sm ds (e\<lparr>jsonParseFailures := counter_Inc (jsonParseFailures e)\<rparr>) = Some e'"
      by (simp only: collectGauges_absent [OF None])
    from Cons.IH [OF this] None show ?thesis by (simp add: counter_Inc_def)
  next
    case (Some v)
    show ?thesis
    proof (cases "gaugeMetrics e (gd_id d)")
      case None
      from Cons.prems collectGauges_panic [OF Some None, of ds] show ?thesis by simp
    next
      case g: (Some g)
      define w where "w = gauge_Set (if HasSuffix (gd_key d) ''latency'' then v / 1000000 else v) g"
      from Cons.prems have
        "collectGauges sm ds (e\<lparr>gaugeMetrics := (gaugeMetrics e)(gd_id d \<mapsto> w)\<rparr>) = Some e'"
        by (simp only: collectGauges_present [OF Some g] w_def)
      from Cons.IH [OF this] Some show ?thesis by simp
    qed
  qed
qed

lemma collectGauges_total:
  "\<forall>d \<in> set ds. gd_id d \<in> dom (gaugeMetrics e) \<Longrightarrow> \<exists>e'. collectGauges sm ds e = Some e'"
proof (induction ds arbitrary: e)
  case Nil
  then show ?case by simp
next
  case (Cons d ds)
  from Cons.prems obtain g where g: "gaugeMetrics e (gd_id d) = Some g" by auto
  show ?case
  proof (cases "map_of sm (gd_key d)")
    case None
    have "\<forall>d \<in> set ds. gd_id d \<in> dom (gaugeMetrics (e\<lparr>jsonParseFailures := counter_Inc (jsonParseFailures e)\<rparr>))"
      using Cons.prems by simp
    from Cons.IH [OF this] show ?thesis by (simp only: collectGauges_absent [OF None])
  next
    case (Some v)
    define w where "w = gauge_Set (if HasSuffix (gd_key d) ''latency'' then v / 1000000 else v) g"
    have "\<forall>d' \<in> set ds. gd_id d' \<in> dom (gaugeMetrics (e\<lparr>gaugeMetrics := (gaugeMetrics e)(gd_id d \<mapsto> w)\<rparr>))"
      using Cons.prems unfolding gauge_update_dom [OF g] by simp
    from Cons.IH [OF this] show ?thesis by (simp only: collectGauges_present [OF Some g] w_def)
  qed
qed

lemma collectGauges_untouched:
  "collectGauges sm ds e = Some e' \<Longrightarrow>
   \<forall>d \<in> set ds. gd_id d = i \<longrightarrow> map_of sm (gd_key d) = None \<Longrightarrow>
   gaugeMetrics e' i = gaugeMetrics e i"
proof (induction ds arbitrary: e)
  case Nil
  then show ?case by simp
next
  case (Cons d ds)
  have rest: "\<forall>d \<in> set ds. gd_id d = i \<longrightarrow> map_of sm (gd_key d) = None"
    using Cons.prems(2) by simp
  show ?case
  proof (cases "map_of sm (gd_key d)")
    case None
    from Cons.prems(1) have
      "collectGauges sm ds (e\<lparr>jsonParseFailures := counter_Inc (jsonParseFailures e)\<rparr>) = Some e'"
      by (simp only: collectGauges_absent [OF None])
    from Cons.IH [OF this rest] show ?thesis by simp
  next
    case (Some v)
    with Cons.prems(2) have ne: "gd_id d \<noteq> i" by auto
    show ?thesis
    proof (cases "gaugeMetrics e (gd_id d)")
      case None
      from Cons.prems(1) collectGauges_panic [OF Some None, of ds] show ?thesis by simp
    next
      case g: (Some g)
      define w where "w = gauge_Set (if HasSuffix (gd_key d) ''latency'' then v / 1000000 else v) g"
      from Cons.prems(1) have
        "collectGauges sm ds (e\<lparr>gaugeMetrics := (gaugeMetrics e)(gd_id d \<mapsto> w)\<rparr>) = Some e'"
        by (simp only: collectGauges_present [OF Some g] w_def)
      from Cons.IH [OF this rest] ne show ?thesis by simp
    qed
  qed
qed

lemma collectGauges_append:
  "collectGauges sm (xs @ ys) e =
     (case collectGauges sm xs e of None \<Rightarrow> None | Some e1 \<Rightarrow> collectGauges sm ys e1)"
  by (induction xs arbitrary: e) (simp_all add: Let_def split: option.splits)

lemma collectGauges_single:
  assumes "map_of sm (gd_key d) = Some v" and "gaugeMetrics e (gd_id d) = Some g"
  shows "collectGauges sm [d] e =
     Some (e\<lparr>gaugeMetrics := (gaugeMetrics e)(gd_id d \<mapsto>
             gauge_Set (if HasSuffix (gd_key d) ''latency'' then v / 1000000 else v) g)\<rparr>)"
  using assms by (simp add: Let_def)

subsection \<open>The counter loops\<close>

lemma failures_add_zero:
  "e\<lparr>jsonParseFailures := (jsonParseFailures e)\<lparr>c_value := c_value (jsonParseFailures e) + 0\<rparr>\<rparr> = e"
  by simp

lemma collectLabels_char:
  assumes "counterMetrics e (cd_id d) = Some dsc"
  shows "collectLabels sm d kls e =
     Some (e\<lparr>jsonParseFailures := (jsonParseFailures e)\<lparr>c_value :=
               c_value (jsonParseFailures e) +
               length (filter (\<lambda>kl. map_of sm (fst kl) = None) kls)\<rparr>\<rparr>,
           map (\<lambda>kl. ConstMetric dsc CounterValue (the (map_of sm (fst kl))) [snd kl])
             (filter (\<lambda>kl. map_of sm (fst kl) \<noteq> None) kls))"
  using assms
proof (induction kls arbitrary: e)
  case Nil
  then show ?case by simp
next
  case (Cons a kls)
  obtain k l where a: "a = (k, l)" by (cases a)
  show ?case
  proof (cases "map_of sm k")
    case None
    have "counterMetrics (e\<lparr>jsonParseFailures := counter_Inc (jsonParseFailures e)\<rparr>) (cd_id d) = Some dsc"
      using Cons.prems by simp
    from Cons.IH [OF this] None a show ?thesis by (simp add: counter_Inc_def)
  next
    case (Some v)
    from Cons.IH [OF Cons.prems] Some a Cons.prems show ?thesis by simp
  qed
qed

lemma collectLabels_frame:
  "collectLabels sm d kls e = Some (e', ms) \<Longrightarrow>
   \<exists>n. e' = e\<lparr>jsonParseFailures := (jsonParseFailures e)\<lparr>c_value :=
               c_value (jsonParseFailures e) + n\<rparr>\<rparr>"
proof (induction kls arbitrary: e e' ms)
  case Nil
  then have "e' = e" by simp
  then show ?case using failures_add_zero [of e] by (intro exI [of _ 0]) simp
next
  case (Cons a kls)
  obtain k l where a: "a = (k, l)" by (cases a)
  show ?case
  proof (cases "map_of sm k")
    case None
    with Cons.prems a have
      "collectLabels sm d kls (e\<lparr>jsonParseFailures := counter_Inc (jsonParseFailures e)\<rparr>) = Some (e', ms)"
      by simp
    from Cons.IH [OF this] obtain n where
      "e' = e\<lparr>jsonParseFailures := counter_Inc (jsonParseFailures e)\<rparr>
              \<lparr>jsonParseFailures := (jsonParseFailures (e\<lparr>jsonParseFailures := counter_Inc (jsonParseFailures e)\<rparr>))
                 \<lparr>c_value := c_value (jsonParseFailures (e\<lparr>jsonParseFailures := counter_Inc (jsonParseFailures e)\<rparr>)) + n\<rparr>\<rparr>"
      by blast
    then have "e' = e\<lparr>jsonParseFailures := (jsonParseFailures e)\<lparr>c_value :=
               c_value (jsonParseFailures e) + Suc n\<rparr>\<rparr>"
      by (simp add: counter_Inc_def)
    then show ?thesis by (rule exI)
  next
    case (Some v)
    with Cons.prems a obtain ms' where "collectLabels sm d kls e = Some (e', ms')"
      by (auto split: option.splits)
    from Cons.IH [OF this] show ?thesis .
  qed
qed

lemma collectCounters_frame:
  "collectCounters rt sm ds e = Some (e', ms) \<Longrightarrow>
   \<exists>n. e' = e\<lparr>jsonParseFailures := (jsonParseFailures e)\<lparr>c_value :=
               c_value (jsonParseFailures e) + n\<rparr>\<rparr>"
proof (induction ds arbitrary: e e' ms)
  case Nil
  then have "e' = e" by simp
  then show ?case using failures_add_zero [of e] by (intro exI [of _ 0]) simp
next
  case (Cons d ds)
  from Cons.prems obtain e1 ms1 ms2 where
    l: "collectLabels sm d (labelOrder rt (cd_labelMap d)) e = Some (e1, ms1)"
    and c: "collectCounters rt sm ds e1 = Some (e', ms2)"
    by (auto split: option.splits)
  from collectLabels_frame [OF l] obtain n where
    n: "e1 = e\<lparr>jsonParseFailures := (jsonParseFailures e)\<lparr>c_value :=
               c_value (jsonParseFailures e) + n\<rparr>\<rparr>" by blast
  from Cons.IH [OF c] obtain m where
    m: "e' = e1\<lparr>jsonParseFailures := (jsonParseFailures e1)\<lparr>c_value :=
               c_value (jsonParseFailures e1) + m\<rparr>\<rparr>" by blast
  have "e' = e\<lparr>jsonParseFailures := (jsonParseFailures e)\<lparr>c_value :=
               c_value (jsonParseFailures e) + (n + m)\<rparr>\<rparr>"
    unfolding m unfolding n by simp
  then show ?case by (rule exI)
qed

lemma collectCounters_char:
  assumes "\<forall>d \<in> set ds. counterMetrics e (cd_id d) \<noteq> None"
  shows "collectCounters rt sm ds e =
     Some (e\<lparr>jsonParseFailures := (jsonParseFailures e)\<lparr>c_value :=
               c_value (jsonParseFailures e) +
               sum_list (map (\<lambda>d. length (filter (\<lambda>kl. map_of sm (fst kl) = None)
                                     (labelOrder rt (cd_labelMap d)))) ds)\<rparr>\<rparr>,
           concat (map (\<lambda>d. map (\<lambda>kl. ConstMetric (the (counterMetrics e (cd_id d))) CounterValue
                                         (the (map_of sm (fst kl))) [snd kl])
                               (filter (\<lambda>kl. map_of sm (fst kl) \<noteq> None)
                                  (labelOrder rt (cd_labelMap d)))) ds))"
  using assms
proof (induction ds arbitrary: e)
  case Nil
  then show ?case by simp
next
  case (Cons d ds)
  from Cons.prems obtain dsc where dsc: "counterMetrics e (cd_id d) = Some dsc" by auto
  define n where "n = length (filter (\<lambda>kl. map_of sm (fst kl) = None) (labelOrder rt (cd_labelMap d)))"
  define e1 where "e1 = e\<lparr>jsonParseFailures := (jsonParseFailures e)\<lparr>c_value :=
               c_value (jsonParseFailures e) + n\<rparr>\<rparr>"
  have l: "collectLabels sm d (labelOrder rt (cd_labelMap d)) e =
     Some (e1, map (\<lambda>kl. ConstMetric dsc CounterValue (the (map_of sm (fst kl))) [snd kl])
             (filter (\<lambda>kl. map_of sm (fst kl) \<noteq> None) (labelOrder rt (cd_labelMap d))))"
    unfolding e1_def n_def by (rule collectLabels_char [OF dsc])
  have cm: "counterMetrics e1 = counterMetrics e" by (simp add: e1_def)
  have "\<forall>d \<in> set ds. counterMetrics e1 (cd_id d) \<noteq> None" using Cons.prems by (simp add: cm)
  from Cons.IH [OF this] l dsc show ?case
    by (simp add: cm) (simp add: e1_def n_def)
qed

subsection \<open>The cycle as a composition of its loops\<close>

lemma collectHistogram_state: "fst (collectHistogram rt sm e) = e"
  by (simp add: collectHistogram_def split: sum.splits)

lemma collectMetrics_nonempty:
  assumes "stats \<noteq> []"
  shows "collectMetrics rt (Some stats) e =
    (case collectGauges (buildStatsMap stats) (gaugeDefs e) e of
       None \<Rightarrow> None
     | Some e1 \<Rightarrow>
        (case collectCounters rt (buildStatsMap stats) (counterDefs e) e1 of
           None \<Rightarrow> None
         | Some (e2, cs) \<Rightarrow>
             Some (e2, cs @ snd (collectHistogram rt (buildStatsMap stats) e2))))"
proof -
  have ne: "buildStatsMap stats \<noteq> []" using assms by (simp add: buildStatsMap_empty_iff)
  show ?thesis
  proof (cases "collectGauges (buildStatsMap stats) (gaugeDefs e) e")
    case None
    then show ?thesis using ne by (simp add: collectMetrics_def)
  next
    case (Some e1)
    from collectGauges_frame [OF Some] have cd: "counterDefs e1 = counterDefs e" by simp
    show ?thesis
    proof (cases "collectCounters rt (buildStatsMap stats) (counterDefs e) e1")
      case None
      then show ?thesis using ne Some cd by (simp add: collectMetrics_def)
    next
      case c: (Some r)
      obtain e2 cs where r: "r = (e2, cs)" by (cases r)
      obtain e3 hs where h: "collectHistogram rt (buildStatsMap stats) e2 = (e3, hs)"
        by (cases "collectHistogram rt (buildStatsMap stats) e2")
      with collectHistogram_state [of rt "buildStatsMap stats" e2] have "e3 = e2" by simp
      with h c r ne Some cd show ?thesis by (simp add: collectMetrics_def)
    qed
  qed
qed

lemma collectMetrics_frame:
  assumes "collectMetrics rt js e = Some (e', ms)"
  shows "HostURL e' = HostURL e \<and> ServerType e' = ServerType e \<and> ApiKey e' = ApiKey e \<and>
     up e' = up e \<and> totalScrapes e' = totalScrapes e \<and>
     counterMetrics e' = counterMetrics e \<and> gaugeDefs e' = gaugeDefs e \<and>
     counterDefs e' = counterDefs e \<and> dom (gaugeMetrics e') = dom (gaugeMetrics e)"
proof (cases "buildStatsMap (case js of None \<Rightarrow> [] | Some data \<Rightarrow> data) = []")
  case True
  with assms have "e' = e" by (simp add: collectMetrics_def)
  then show ?thesis by simp
next
  case False
  define sm where "sm = buildStatsMap (case js of None \<Rightarrow> [] | Some data \<Rightarrow> data)"
  from assms False obtain e1 e2 cs where
    g: "collectGauges sm (gaugeDefs e) e = Some e1"
    and c: "collectCounters rt sm (counterDefs e1) e1 = Some (e2, cs)"
    and h: "e' = fst (collectHistogram rt sm e2)"
    by (auto simp: collectMetrics_def sm_def Let_def split: option.splits prod.splits)
  from collectCounters_frame [OF c] obtain n where
    n: "e2 = e1\<lparr>jsonParseFailures := (jsonParseFailures e1)\<lparr>c_value :=
               c_value (jsonParseFailures e1) + n\<rparr>\<rparr>" by blast
  have e': "e' = e2" using h by (simp add: collectHistogram_state)
  from collectGauges_frame [OF g] show ?thesis unfolding e' n by simp
qed

lemma scrape_frame:
  "HostURL (fst (scrape f e)) = HostURL e \<and> ServerType (fst (scrape f e)) = ServerType e \<and>
   ApiKey (fst (scrape f e)) = ApiKey e \<and>
   counterMetrics (fst (scrape f e)) = counterMetrics e \<and>
   gaugeMetrics (fst (scrape f e)) = gaugeMetrics e \<and>
   gaugeDefs (fst (scrape f e)) = gaugeDefs e \<and> counterDefs (fst (scrape f e)) = counterDefs e"
  by (simp add: scrape_def Let_def split: sum.splits)

lemma Collect_frame:
  assumes "Collect rt f e = Some (e', ms)"
  shows "HostURL e' = HostURL e \<and> ServerType e' = ServerType e \<and> ApiKey e' = ApiKey e \<and>
     counterMetrics e' = counterMetrics e \<and> gaugeDefs e' = gaugeDefs e \<and>
     counterDefs e' = counterDefs e \<and> dom (gaugeMetrics e') = dom (gaugeMetrics e)"
proof -
  obtain e1 js where s: "scrape f e = (e1, js)" by (cases "scrape f e")
  with assms obtain ms' where "collectMetrics rt js e1 = Some (e', ms')"
    by (auto simp: Collect_def split: option.splits)
  from collectMetrics_frame [OF this] scrape_frame [of f e] s show ?thesis by simp
qed

lemma scrape_success:
  "scrape (Inr stats) e =
     (e\<lparr>totalScrapes := counter_Inc (totalScrapes e), up := gauge_Set 1 (up e)\<rparr>, Some stats)"
  by (simp add: scrape_def Let_def)

lemma Collect_nonempty:
  assumes "stats \<noteq> []"
  shows "Collect rt (Inr stats) e =
    (case collectGauges (buildStatsMap stats) (gaugeDefs e)
            (e\<lparr>totalScrapes := counter_Inc (totalScrapes e), up := gauge_Set 1 (up e)\<rparr>) of
       None \<Rightarrow> None
     | Some e1 \<Rightarrow>
        (case collectCounters rt (buildStatsMap stats) (counterDefs e) e1 of
           None \<Rightarrow> None
         | Some (e2, cs) \<Rightarrow>
             Some (e2, [UpRef, TotalScrapesRef, JsonParseFailuresRef] @ cs @
                         snd (collectHistogram rt (buildStatsMap stats) e2))))"
  by (simp add: Collect_def scrape_success collectMetrics_nonempty [OF assms]
        split: option.splits)

lemma fold_upd_dom:
  "dom (fold (\<lambda>d m. m(f d \<mapsto> g d)) ds m0) = f ` set ds \<union> dom m0"
  by (induction ds arbitrary: m0) auto

lemma fold_upd_other:
  "k \<notin> f ` set ds \<Longrightarrow> fold (\<lambda>d m. m(f d \<mapsto> g d)) ds m0 k = m0 k"
  by (induction ds arbitrary: m0) auto

lemma fold_upd_distinct:
  "distinct (map f ds) \<Longrightarrow> d \<in> set ds \<Longrightarrow>
   fold (\<lambda>d m. m(f d \<mapsto> g d)) ds m0 (f d) = Some (g d)"
proof (induction ds arbitrary: m0)
  case Nil
  then show ?case by simp
next
  case (Cons a ds)
  have step: "fold (\<lambda>d m. m(f d \<mapsto> g d)) (a # ds) m0 =
              fold (\<lambda>d m. m(f d \<mapsto> g d)) ds (m0(f a \<mapsto> g a))"
    by simp
  show ?case
  proof (cases "d \<in> set ds")
    case True
    with Cons.prems have "distinct (map f ds)" by simp
    from Cons.IH [OF this True] show ?thesis unfolding step .
  next
    case False
    with Cons.prems have ad: "a = d" and "f d \<notin> f ` set ds" by auto
    from fold_upd_other [OF this(2), of g "m0(f a \<mapsto> g a)"] ad show ?thesis
      unfolding step by simp
  qed
qed

subsection \<open>Iteration orders and the exporters that exist at run time\<close>

lemma labelOrder_filter_length:
  assumes "is_mapOrder rt"
  shows "length (filter P (labelOrder rt xs)) = length (filter P xs)"
proof -
  have "mset (labelOrder rt xs) = mset xs" using assms by (simp add: is_mapOrder_def)
  then have "mset (filter P (labelOrder rt xs)) = mset (filter P xs)" by simp
  then have "size (mset (filter P (labelOrder rt xs))) = size (mset (filter P xs))"
    by (rule arg_cong)
  then show ?thesis by (simp only: size_mset)
qed

lemma labelOrder_filter_map:
  assumes "is_mapOrder rt"
  shows "mset (map f (filter P (labelOrder rt xs))) = mset (map f (filter P xs))"
proof -
  have "mset (labelOrder rt xs) = mset xs" using assms by (simp add: is_mapOrder_def)
  then show ?thesis by simp
qed

lemma mset_concat_cong:
  "\<forall>x \<in> set xs. mset (f x) = mset (g x) \<Longrightarrow>
   mset (concat (map f xs)) = mset (concat (map g xs))"
  by (induction xs) simp_all

lemma catalog_counter_ids:
  "distinct (map cd_id recursorCounterDefs)"
  "distinct (map cd_id authoritativeCounterDefs)"
  "distinct (map cd_id dnsdistCounterDefs)"
  by (simp_all add: recursorCounterDefs_def authoritativeCounterDefs_def dnsdistCounterDefs_def
        counterDef_def)

lemma NewExporter_sel:
  "ServerType (NewExporter a st h) = st"
  "gaugeMetrics (NewExporter a st h) =
     fold (\<lambda>d m. m(gd_id d \<mapsto> newGaugeMetric st (gd_name d) (gd_desc d)))
       (gaugeDefs (NewExporter a st h)) Map.empty"
  "counterMetrics (NewExporter a st h) =
     fold (\<lambda>d m. m(cd_id d \<mapsto>
             NewDesc (BuildFQName namespace st (cd_name d)) (cd_desc d) [cd_label d]))
       (counterDefs (NewExporter a st h)) Map.empty"
  "counterDefs (NewExporter a st h) =
     (if st = ''recursor'' then recursorCounterDefs
      else if st = ''authoritative'' then authoritativeCounterDefs
      else if st = ''dnsdist'' then dnsdistCounterDefs
      else [])"
  "gaugeDefs (NewExporter a st h) =
     (if st = ''recursor'' then recursorGaugeDefs
      else if st = ''authoritative'' then authoritativeGaugeDefs
      else if st = ''dnsdist'' then dnsdistGaugeDefs
      else [])"
  by (simp_all add: NewExporter_def Let_def)

lemma NewExporter_counter_ids: "distinct (map cd_id (counterDefs (NewExporter a st h)))"
  unfolding NewExporter_sel(4) using catalog_counter_ids by simp

lemma reachable_invariant:
  "reachable e \<Longrightarrow>
     (\<forall>d \<in> set (gaugeDefs e). gd_id d \<in> dom (gaugeMetrics e)) \<and>
     (\<forall>d \<in> set (counterDefs e). counterMetrics e (cd_id d) =
        Some (NewDesc (BuildFQName namespace (ServerType e) (cd_name d)) (cd_desc d) [cd_label d])) \<and>
     (ServerType e = ''recursor'' \<longrightarrow>
        gaugeDefs e = recursorGaugeDefs \<and> counterDefs e = recursorCounterDefs)"
proof (induction rule: reachable.induct)
  case (reachable_new a st h)
  have g: "\<forall>d \<in> set (gaugeDefs (NewExporter a st h)). gd_id d \<in> dom (gaugeMetrics (NewExporter a st h))"
    unfolding NewExporter_sel(2) fold_upd_dom by simp
  have c: "\<forall>d \<in> set (counterDefs (NewExporter a st h)).
      counterMetrics (NewExporter a st h) (cd_id d) =
        Some (NewDesc (BuildFQName namespace (ServerType (NewExporter a st h)) (cd_name d))
               (cd_desc d) [cd_label d])"
  proof
    fix d assume "d \<in> set (counterDefs (NewExporter a st h))"
    from fold_upd_distinct [OF NewExporter_counter_ids this] show
      "counterMetrics (NewExporter a st h) (cd_id d) =
        Some (NewDesc (BuildFQName namespace (ServerType (NewExporter a st h)) (cd_name d))
               (cd_desc d) [cd_label d])"
      unfolding NewExporter_sel(1) NewExporter_sel(3) .
  qed
  have r: "ServerType (NewExporter a st h) = ''recursor'' \<longrightarrow>
        gaugeDefs (NewExporter a st h) = recursorGaugeDefs \<and>
        counterDefs (NewExporter a st h) = recursorCounterDefs"
    unfolding NewExporter_sel(1) NewExporter_sel(4) NewExporter_sel(5) by simp
  from g c r show ?case by (intro conjI)
next
  case (reachable_cycle e rt fetched e' ms)
  from Collect_frame [OF reachable_cycle.hyps(3)] reachable_cycle.IH show ?case by simp
qed

subsection \<open>The histogram\<close>

lemma uint64_of_nat: "uint64_of (of_nat n) = of_nat n"
  by (simp add: uint64_of_def)

lemma unat_sum_bounded:
  fixes n :: nat
  assumes "n < 2 ^ 64"
  shows "unat (of_nat n :: uint64) = n"
  using assms by (simp add: unat_of_nat)

lemma histogram_missing:
  assumes rt: "is_mapOrder rt"
    and k: "k \<in> fst ` set rTimeBucketMap" and abs: "map_of sm k = None"
  shows "\<exists>k'. makeRecursorRTimeHistogram rt sm = Inl (MissingKey k') \<and>
              k' \<in> fst ` set rTimeBucketMap \<and> map_of sm k' = None"
proof -
  from k obtain v where "(k, v) \<in> set rTimeBucketMap" by auto
  then have "(k, v) \<in> set (bucketOrder rt rTimeBucketMap)"
    by (simp only: bucketOrder_set [OF rt])
  from linearBuckets_missing [OF this abs, of "[]" 0] obtain k' where
    l: "linearBuckets (bucketOrder rt rTimeBucketMap) sm [] 0 = Inl (MissingKey k')"
    and k': "k' \<in> fst ` set (bucketOrder rt rTimeBucketMap)" and a': "map_of sm k' = None"
    by blast
  from l have "makeRecursorRTimeHistogram rt sm = Inl (MissingKey k')"
    by (simp add: makeRecursorRTimeHistogram_def)
  moreover from k' have "k' \<in> fst ` set rTimeBucketMap" by (simp only: bucketOrder_set [OF rt])
  ultimately show ?thesis using a' by blast
qed

lemma sourceOrder_is_mapOrder: "is_mapOrder sourceOrder"
  by (simp add: is_mapOrder_def sourceOrder_def)

text \<open>
  C2 (as amended). For a snapshot that holds all five histogram keys with non-negative
  integer values whose sum is below \<open>2 ^ 64\<close>, \<^verbatim>\<open>makeRecursorRTimeHistogram\<close> succeeds
  for every order of visiting the bucket map: the buckets are the four finite thresholds,
  their cumulative counts are the running sums in ascending threshold order, hence
  non-decreasing, and the total count is the sum of all five raw counts, the unbounded
  \<^verbatim>\<open>answers-slow\<close> bucket included.
\<close>

theorem histogram_cumulative:
  assumes "is_mapOrder rt"
    and "map_of statsMap ''answers0-1'' = Some (of_nat n1)"
    and "map_of statsMap ''answers1-10'' = Some (of_nat n2)"
    and "map_of statsMap ''answers10-100'' = Some (of_nat n3)"
    and "map_of statsMap ''answers100-1000'' = Some (of_nat n4)"
    and "map_of statsMap ''answers-slow'' = Some (of_nat n5)"
    and "n1 + n2 + n3 + n4 + n5 < 2 ^ 64"
  shows "\<exists>cnt b c1 c2 c3 c4.
           makeRecursorRTimeHistogram rt statsMap =
             Inr (ConstHistogram rTimeHistogramDesc cnt 0 b) \<and>
           map_of b = [1 / 1000 \<mapsto> c1, 1 / 100 \<mapsto> c2, 1 / 10 \<mapsto> c3, 1 \<mapsto> c4] \<and>
           unat c1 = n1 \<and> unat c2 = n1 + n2 \<and> unat c3 = n1 + n2 + n3 \<and>
           unat c4 = n1 + n2 + n3 + n4 \<and> unat cnt = n1 + n2 + n3 + n4 + n5 \<and>
           c1 \<le> c2 \<and> c2 \<le> c3 \<and> c3 \<le> c4 \<and> c4 \<le> cnt"
proof -
  let ?c1 = "of_nat n1 :: uint64"
  let ?c2 = "of_nat (n1 + n2) :: uint64"
  let ?c3 = "of_nat (n1 + n2 + n3) :: uint64"
  let ?c4 = "of_nat (n1 + n2 + n3 + n4) :: uint64"
  let ?cnt = "of_nat (n1 + n2 + n3 + n4 + n5) :: uint64"
  from histogram_buckets [OF assms(1-6)] obtain b where
    r: "makeRecursorRTimeHistogram rt statsMap = Inr (ConstHistogram rTimeHistogramDesc ?cnt 0 b)"
    and b: "map_of b = [1 / 1000 \<mapsto> ?c1, 1 / 100 \<mapsto> ?c2, 1 / 10 \<mapsto> ?c3, 1 \<mapsto> ?c4]"
    unfolding uint64_of_nat by (auto simp only: of_nat_add)
  have u: "unat ?c1 = n1" "unat ?c2 = n1 + n2" "unat ?c3 = n1 + n2 + n3"
    "unat ?c4 = n1 + n2 + n3 + n4" "unat ?cnt = n1 + n2 + n3 + n4 + n5"
    using assms(7) by (simp_all only: unat_sum_bounded)
  have le: "?c1 \<le> ?c2" "?c2 \<le> ?c3" "?c3 \<le> ?c4" "?c4 \<le> ?cnt"
    unfolding word_le_nat_alt u by simp_all
  from r b u le show ?thesis by blast
qed

theorem histogram_cumulative_witness:
  "\<exists>cnt b c1 c2 c3 c4.
     makeRecursorRTimeHistogram sourceOrder
       [(''answers0-1'', 10), (''answers1-10'', 5), (''answers10-100'', 0),
        (''answers100-1000'', 0), (''answers-slow'', 2)] =
       Inr (ConstHistogram rTimeHistogramDesc cnt 0 b) \<and>
     map_of b = [1 / 1000 \<mapsto> c1, 1 / 100 \<mapsto> c2, 1 / 10 \<mapsto> c3, 1 \<mapsto> c4] \<and>
     unat c1 = 10 \<and> unat c2 = 15 \<and> unat c3 = 15 \<and> unat c4 = 15 \<and> unat cnt = 17 \<and>
     c1 \<le> c2 \<and> c2 \<le> c3 \<and> c3 \<le> c4 \<and> c4 \<le> cnt"
  using histogram_cumulative [of sourceOrder
      "[(''answers0-1'', 10), (''answers1-10'', 5), (''answers10-100'', 0),
        (''answers100-1000'', 0), (''answers-slow'', 2)]" 10 5 0 0 2]
    sourceOrder_is_mapOrder
  by simp

text \<open>
  Counterexample to C2 as stated, without the bound: \<^verbatim>\<open>uint64\<close> sums wrap around. With \<open>2 ^ 63\<close> answers
  in each of the first two buckets the cumulative count drops from \<open>2 ^ 63\<close> at 0.001 to 0
  at 0.01, and the total count is 0.
\<close>

theorem histogram_overflow_counterexample:
  "makeRecursorRTimeHistogram sourceOrder
     [(''answers0-1'', 9223372036854775808), (''answers1-10'', 9223372036854775808),
      (''answers10-100'', 0), (''answers100-1000'', 0), (''answers-slow'', 0)] =
     Inr (ConstHistogram rTimeHistogramDesc 0 0
           [(1 / 1000, 9223372036854775808), (1 / 100, 0), (1 / 10, 0), (1, 0)])
   \<and> \<not> (9223372036854775808 :: uint64) \<le> 0"
  by (simp add: makeRecursorRTimeHistogram_def sourceOrder_def rTimeBucketMap_def
        uint64_of_def Let_def)

text \<open>
  C8. The snapshot with 10, 5, 0, 0 and 2 answers in the five buckets gives the cumulative
  buckets 0.001 \<mapsto> 10, 0.01 \<mapsto> 15, 0.1 \<mapsto> 15, 1 \<mapsto> 15 and the total count 17, for every
  order of visiting the bucket map.
\<close>

theorem histogram_scenario:
  assumes "is_mapOrder rt"
  shows "\<exists>b. makeRecursorRTimeHistogram rt
               [(''answers0-1'', 10), (''answers1-10'', 5), (''answers10-100'', 0),
                (''answers100-1000'', 0), (''answers-slow'', 2)] =
               Inr (ConstHistogram rTimeHistogramDesc 17 0 b) \<and>
             map_of b = [1 / 1000 \<mapsto> 10, 1 / 100 \<mapsto> 15, 1 / 10 \<mapsto> 15, 1 \<mapsto> 15]"
  using histogram_buckets [OF assms, of
      "[(''answers0-1'', 10), (''answers1-10'', 5), (''answers10-100'', 0),
        (''answers100-1000'', 0), (''answers-slow'', 2)]" 10 5 0 0 2]
  by (simp add: uint64_of_def)

theorem histogram_scenario_witness:
  "\<exists>b. makeRecursorRTimeHistogram sourceOrder
               [(''answers0-1'', 10), (''answers1-10'', 5), (''answers10-100'', 0),
                (''answers100-1000'', 0), (''answers-slow'', 2)] =
               Inr (ConstHistogram rTimeHistogramDesc 17 0 b) \<and>
             map_of b = [1 / 1000 \<mapsto> 10, 1 / 100 \<mapsto> 15, 1 / 10 \<mapsto> 15, 1 \<mapsto> 15]"
  using histogram_scenario [OF sourceOrder_is_mapOrder] .

subsection \<open>A missing histogram key\<close>

lemma Collect_success:
  assumes "reachable e" and "stats \<noteq> []"
  shows "\<exists>e1 e2 cs.
    collectGauges (buildStatsMap stats) (gaugeDefs e) (fst (scrape (Inr stats) e)) = Some e1 \<and>
    collectCounters rt (buildStatsMap stats) (counterDefs e) e1 = Some (e2, cs) \<and>
    counterMetrics e1 = counterMetrics e \<and>
    Collect rt (Inr stats) e =
        Some (e2, [UpRef, TotalScrapesRef, JsonParseFailuresRef] @ cs @
                    snd (collectHistogram rt (buildStatsMap stats) e2))"
proof -
  define e0 where "e0 = fst (scrape (Inr stats) e)"
  have e0: "e0 = e\<lparr>totalScrapes := counter_Inc (totalScrapes e), up := gauge_Set 1 (up e)\<rparr>"
    by (simp add: e0_def scrape_success)
  have sel0: "gaugeDefs e0 = gaugeDefs e" "gaugeMetrics e0 = gaugeMetrics e"
    "counterMetrics e0 = counterMetrics e"
    by (simp_all add: e0)
  from reachable_invariant [OF assms(1)] have
    gi: "\<forall>d \<in> set (gaugeDefs e). gd_id d \<in> dom (gaugeMetrics e0)"
    and ci: "\<forall>d \<in> set (counterDefs e). counterMetrics e (cd_id d) \<noteq> None"
    by (simp_all add: sel0)
  from collectGauges_total [OF gi] obtain e1 where
    g: "collectGauges (buildStatsMap stats) (gaugeDefs e) e0 = Some e1" by blast
  from collectGauges_frame [OF g] have cm: "counterMetrics e1 = counterMetrics e"
    by (simp add: sel0)
  from ci have "\<forall>d \<in> set (counterDefs e). counterMetrics e1 (cd_id d) \<noteq> None"
    by (simp only: cm)
  from collectCounters_char [OF this, of rt "buildStatsMap stats"] obtain e2 cs where
    c: "collectCounters rt (buildStatsMap stats) (counterDefs e) e1 = Some (e2, cs)"
    by simp
  have r: "Collect rt (Inr stats) e =
        Some (e2, [UpRef, TotalScrapesRef, JsonParseFailuresRef] @ cs @
                    snd (collectHistogram rt (buildStatsMap stats) e2))"
    unfolding Collect_nonempty [OF assms(2)] e0 [symmetric]
    by (simp only: g c option.case prod.case)
  from g c cm r show ?thesis unfolding e0_def by (intro exI conjI)
qed

lemma collectHistogram_missing:
  assumes "is_mapOrder rt" and "k \<in> fst ` set rTimeBucketMap" and "map_of sm k = None"
  shows "collectHistogram rt sm e = (e, [])"
proof -
  from histogram_missing [OF assms] obtain k' where
    "makeRecursorRTimeHistogram rt sm = Inl (MissingKey k')" by blast
  then show ?thesis by (simp add: collectHistogram_def)
qed

lemma collectLabels_series:
  "collectLabels sm d kls e = Some (e', ms) \<Longrightarrow> list_all is_counter_series ms"
proof (induction kls arbitrary: e e' ms)
  case Nil
  then show ?case by simp
next
  case (Cons a kls)
  obtain k l where a: "a = (k, l)" by (cases a)
  show ?case
  proof (cases "map_of sm k")
    case None
    with Cons.prems a have
      "collectLabels sm d kls (e\<lparr>jsonParseFailures := counter_Inc (jsonParseFailures e)\<rparr>) = Some (e', ms)"
      by simp
    from Cons.IH [OF this] show ?thesis .
  next
    case (Some v)
    with Cons.prems a obtain dsc ms' where
      r: "collectLabels sm d kls e = Some (e', ms')"
      and ms: "ms = ConstMetric dsc CounterValue v [l] # ms'"
      by (auto split: option.splits)
    from Cons.IH [OF r] ms show ?thesis by simp
  qed
qed

lemma collectCounters_series:
  "collectCounters rt sm ds e = Some (e', ms) \<Longrightarrow> list_all is_counter_series ms"
proof (induction ds arbitrary: e e' ms)
  case Nil
  then show ?case by simp
next
  case (Cons d ds)
  from Cons.prems obtain e1 ms1 ms2 where
    l: "collectLabels sm d (labelOrder rt (cd_labelMap d)) e = Some (e1, ms1)"
    and c: "collectCounters rt sm ds e1 = Some (e', ms2)"
    and ms: "ms = ms1 @ ms2"
    by (auto split: option.splits)
  from collectLabels_series [OF l] Cons.IH [OF c] ms show ?case by simp
qed

lemma counter_series_not_histogram:
  "list_all is_counter_series ms \<Longrightarrow> \<not> list_ex is_histogram ms"
proof (induction ms)
  case Nil
  then show ?case by simp
next
  case (Cons m ms)
  then show ?case by (cases m) simp_all
qed

text \<open>
  C4. When one of the five histogram keys is absent from the snapshot,
  \<^verbatim>\<open>makeRecursorRTimeHistogram\<close> returns a missing-key error naming an absent key, whatever
  the order in which the bucket map is visited. The cycle then sends no histogram, and what
  it does send and the state it leaves are exactly those of the gauge and counter loops:
  the three housekeeping metrics followed by the counter series.
\<close>

theorem histogram_missing_key:
  assumes "reachable e" and "is_mapOrder rt"
    and "k \<in> fst ` set rTimeBucketMap" and "map_of (buildStatsMap stats) k = None"
  shows "(\<exists>k'. makeRecursorRTimeHistogram rt (buildStatsMap stats) = Inl (MissingKey k') \<and>
               k' \<in> fst ` set rTimeBucketMap \<and> map_of (buildStatsMap stats) k' = None) \<and>
         (\<exists>e' ms. Collect rt (Inr stats) e = Some (e', ms) \<and> \<not> list_ex is_histogram ms \<and>
            (if stats = [] then ms = [UpRef, TotalScrapesRef, JsonParseFailuresRef]
             else \<exists>e1 cs.
               collectGauges (buildStatsMap stats) (gaugeDefs e) (fst (scrape (Inr stats) e)) =
                 Some e1 \<and>
               collectCounters rt (buildStatsMap stats) (counterDefs e) e1 = Some (e', cs) \<and>
               ms = [UpRef, TotalScrapesRef, JsonParseFailuresRef] @ cs))"
proof (intro conjI)
  show "\<exists>k'. makeRecursorRTimeHistogram rt (buildStatsMap stats) = Inl (MissingKey k') \<and>
               k' \<in> fst ` set rTimeBucketMap \<and> map_of (buildStatsMap stats) k' = None"
    by (rule histogram_missing [OF assms(2-4)])
  show "\<exists>e' ms. Collect rt (Inr stats) e = Some (e', ms) \<and> \<not> list_ex is_histogram ms \<and>
            (if stats = [] then ms = [UpRef, TotalScrapesRef, JsonParseFailuresRef]
             else \<exists>e1 cs.
               collectGauges (buildStatsMap stats) (gaugeDefs e) (fst (scrape (Inr stats) e)) =
                 Some e1 \<and>
               collectCounters rt (buildStatsMap stats) (counterDefs e) e1 = Some (e', cs) \<and>
               ms = [UpRef, TotalScrapesRef, JsonParseFailuresRef] @ cs)"
  proof (cases "stats = []")
    case True
    show ?thesis unfolding True Collect_empty by simp
  next
    case False
    from Collect_success [OF assms(1) False, of rt] obtain e1 e2 cs where
      g: "collectGauges (buildStatsMap stats) (gaugeDefs e) (fst (scrape (Inr stats) e)) = Some e1"
      and c: "collectCounters rt (buildStatsMap stats) (counterDefs e) e1 = Some (e2, cs)"
      and r: "Collect rt (Inr stats) e =
        Some (e2, [UpRef, TotalScrapesRef, JsonParseFailuresRef] @ cs @
                    snd (collectHistogram rt (buildStatsMap stats) e2))"
      by (elim exE conjE)
    have h: "snd (collectHistogram rt (buildStatsMap stats) e2) = []"
      by (simp add: collectHistogram_missing [OF assms(2-4)])
    from counter_series_not_histogram [OF collectCounters_series [OF c]]
    have nh: "\<not> list_ex is_histogram ([UpRef, TotalScrapesRef, JsonParseFailuresRef] @ cs)"
      by simp
    from r h have "Collect rt (Inr stats) e =
        Some (e2, [UpRef, TotalScrapesRef, JsonParseFailuresRef] @ cs)" by simp
    with g c nh show ?thesis
      unfolding if_not_P [OF False]
      by (intro exI [of _ e2] exI [of _ "[UpRef, TotalScrapesRef, JsonParseFailuresRef] @ cs"]
            exI [of _ e1] exI [of _ cs] conjI refl)
  qed
qed


theorem histogram_missing_key_witness:
  "(\<exists>k'. makeRecursorRTimeHistogram sourceOrder
            (buildStatsMap [\<lparr>Name = ''questions'', Kind = ''StatisticItem'', Value = 42\<rparr>]) =
            Inl (MissingKey k') \<and>
          k' \<in> fst ` set rTimeBucketMap \<and>
          map_of (buildStatsMap [\<lparr>Name = ''questions'', Kind = ''StatisticItem'', Value = 42\<rparr>]) k' =
            None) \<and>
   (\<exists>e' ms. Collect sourceOrder
              (Inr [\<lparr>Name = ''questions'', Kind = ''StatisticItem'', Value = 42\<rparr>])
              (NewExporter [] ''recursor'' []) = Some (e', ms) \<and>
            \<not> list_ex is_histogram ms)"
proof -
  have h3: "''answers-slow'' \<in> fst ` set rTimeBucketMap"
    by (simp add: rTimeBucketMap_def)
  have h4: "map_of (buildStatsMap [\<lparr>Name = ''questions'', Kind = ''StatisticItem'', Value = 42\<rparr>])
              ''answers-slow'' = None"
    by (simp add: buildStatsMap_def)
  from histogram_missing_key [OF reachable_new sourceOrder_is_mapOrder h3 h4, of "[]" "''recursor''" "[]"]
  show ?thesis by blast
qed

subsection \<open>A cycle with a non-empty snapshot\<close>

lemma Collect_cycle:
  assumes "reachable e" and "is_mapOrder rt" and "stats \<noteq> []"
  shows "\<exists>e1 e' cs.
    collectGauges (buildStatsMap stats) (gaugeDefs e) (fst (scrape (Inr stats) e)) = Some e1 \<and>
    Collect rt (Inr stats) e =
      Some (e', [UpRef, TotalScrapesRef, JsonParseFailuresRef] @ cs @
                  snd (collectHistogram rt (buildStatsMap stats) e')) \<and>
    gaugeMetrics e' = gaugeMetrics e1 \<and>
    mset cs =
      mset (concat (map (\<lambda>d. map (\<lambda>kl. ConstMetric
                 (NewDesc (BuildFQName namespace (ServerType e) (cd_name d)) (cd_desc d) [cd_label d])
                 CounterValue (the (map_of (buildStatsMap stats) (fst kl))) [snd kl])
               (filter (\<lambda>kl. map_of (buildStatsMap stats) (fst kl) \<noteq> None) (cd_labelMap d)))
             (counterDefs e))) \<and>
    c_value (jsonParseFailures e') =
      c_value (jsonParseFailures e) +
      length (filter (\<lambda>d. map_of (buildStatsMap stats) (gd_key d) = None) (gaugeDefs e)) +
      sum_list (map (\<lambda>d. length (filter (\<lambda>kl. map_of (buildStatsMap stats) (fst kl) = None)
                              (cd_labelMap d))) (counterDefs e))"
proof -
  define sm where "sm = buildStatsMap stats"
  from Collect_success [OF assms(1,3), of rt] obtain e1 e2 cs where
    g: "collectGauges sm (gaugeDefs e) (fst (scrape (Inr stats) e)) = Some e1"
    and c: "collectCounters rt sm (counterDefs e) e1 = Some (e2, cs)"
    and cm: "counterMetrics e1 = counterMetrics e"
    and r: "Collect rt (Inr stats) e =
        Some (e2, [UpRef, TotalScrapesRef, JsonParseFailuresRef] @ cs @
                    snd (collectHistogram rt sm e2))"
    unfolding sm_def by (elim exE conjE)
  note inv = reachable_invariant [OF assms(1)]
  from inv have "\<forall>d \<in> set (counterDefs e). counterMetrics e1 (cd_id d) \<noteq> None"
    by (simp add: cm)
  note ch = collectCounters_char [OF this, of rt sm]
  define n where "n = sum_list (map (\<lambda>d. length (filter (\<lambda>kl. map_of sm (fst kl) = None)
                                     (labelOrder rt (cd_labelMap d)))) (counterDefs e))"
  from c ch have e2: "e2 = e1\<lparr>jsonParseFailures := (jsonParseFailures e1)\<lparr>c_value :=
               c_value (jsonParseFailures e1) + n\<rparr>\<rparr>"
    and cs: "cs = concat (map (\<lambda>d. map (\<lambda>kl. ConstMetric (the (counterMetrics e1 (cd_id d))) CounterValue
                                         (the (map_of sm (fst kl))) [snd kl])
                               (filter (\<lambda>kl. map_of sm (fst kl) \<noteq> None)
                                  (labelOrder rt (cd_labelMap d)))) (counterDefs e))"
    by (simp_all add: n_def)
  have gm: "gaugeMetrics e2 = gaugeMetrics e1" by (simp add: e2)
  have n: "n = sum_list (map (\<lambda>d. length (filter (\<lambda>kl. map_of sm (fst kl) = None)
                              (cd_labelMap d))) (counterDefs e))"
    unfolding n_def by (simp only: labelOrder_filter_length [OF assms(2)])
  have j0: "jsonParseFailures (fst (scrape (Inr stats) e)) = jsonParseFailures e"
    by (simp add: scrape_success)
  from collectGauges_failures [OF g] have
    j1: "c_value (jsonParseFailures e1) = c_value (jsonParseFailures e) +
          length (filter (\<lambda>d. map_of sm (gd_key d) = None) (gaugeDefs e))"
    by (simp add: j0)
  have j2: "c_value (jsonParseFailures e2) =
      c_value (jsonParseFailures e) +
      length (filter (\<lambda>d. map_of sm (gd_key d) = None) (gaugeDefs e)) +
      sum_list (map (\<lambda>d. length (filter (\<lambda>kl. map_of sm (fst kl) = None)
                              (cd_labelMap d))) (counterDefs e))"
    unfolding n [symmetric] by (simp add: e2 j1)
  have "mset cs = mset (concat (map (\<lambda>d. map (\<lambda>kl. ConstMetric
                 (NewDesc (BuildFQName namespace (ServerType e) (cd_name d)) (cd_desc d) [cd_label d])
                 CounterValue (the (map_of sm (fst kl))) [snd kl])
               (filter (\<lambda>kl. map_of sm (fst kl) \<noteq> None) (cd_labelMap d)))
             (counterDefs e)))"
    unfolding cs
  proof (rule mset_concat_cong, rule ballI)
    fix d assume d: "d \<in> set (counterDefs e)"
    with inv have "counterMetrics e1 (cd_id d) =
        Some (NewDesc (BuildFQName namespace (ServerType e) (cd_name d)) (cd_desc d) [cd_label d])"
      by (simp add: cm)
    then show "mset (map (\<lambda>kl. ConstMetric (the (counterMetrics e1 (cd_id d))) CounterValue
                                         (the (map_of sm (fst kl))) [snd kl])
                               (filter (\<lambda>kl. map_of sm (fst kl) \<noteq> None)
                                  (labelOrder rt (cd_labelMap d)))) =
        mset (map (\<lambda>kl. ConstMetric
                 (NewDesc (BuildFQName namespace (ServerType e) (cd_name d)) (cd_desc d) [cd_label d])
                 CounterValue (the (map_of sm (fst kl))) [snd kl])
               (filter (\<lambda>kl. map_of sm (fst kl) \<noteq> None) (cd_labelMap d)))"
      by (simp only: option.sel labelOrder_filter_map [OF assms(2)])
  qed
  with g r gm j2 show ?thesis unfolding sm_def by (intro exI [of _ e1] exI [of _ e2] exI [of _ cs] conjI)
qed

subsection \<open>Missing keys and the failure counter\<close>




text \<open>
  The histogram branch of \<^verbatim>\<open>collectMetrics\<close> logs the builder's error and returns; it does
  not touch \<open>jsonParseFailures\<close> itself. In the cycle below (a recursor, a snapshot
  holding only \<^verbatim>\<open>questions\<close>) the builder fails and the counter ends at 20: the 3 absent
  gauge keys plus the 17 absent counter keys, the five histogram keys among the latter.
\<close>

lemma histogram_branch_logs_only:
  "makeRecursorRTimeHistogram sourceOrder [(''questions'', 42)] = Inl (MissingKey ''answers0-1'') \<and>
   collectHistogram sourceOrder [(''questions'', 42)] (NewExporter [] ''recursor'' []) =
     (NewExporter [] ''recursor'' [], []) \<and>
   length (filter (\<lambda>d. map_of [(''questions'', 42 :: float64)] (gd_key d) = None)
     recursorGaugeDefs) = 3 \<and>
   sum_list (map (\<lambda>d. length (filter (\<lambda>kl. map_of [(''questions'', 42 :: float64)] (fst kl) = None)
     (cd_labelMap d))) recursorCounterDefs) = 17 \<and>
   map_option (\<lambda>r. c_value (jsonParseFailures (fst r)))
     (Collect sourceOrder (Inr [\<lparr>Name = ''questions'', Kind = ''StatisticItem'', Value = 42\<rparr>])
        (NewExporter [] ''recursor'' [])) = Some 20"
proof (intro conjI)
  show m: "makeRecursorRTimeHistogram sourceOrder [(''questions'', 42)] =
      Inl (MissingKey ''answers0-1'')"
    by (simp add: makeRecursorRTimeHistogram_def sourceOrder_def rTimeBucketMap_def)
  show "collectHistogram sourceOrder [(''questions'', 42)] (NewExporter [] ''recursor'' []) =
     (NewExporter [] ''recursor'' [], [])"
    by (simp add: collectHistogram_def m)
  show g: "length (filter (\<lambda>d. map_of [(''questions'', 42 :: float64)] (gd_key d) = None)
     recursorGaugeDefs) = 3"
    by (simp add: recursorGaugeDefs_def gaugeDef_def)
  show c: "sum_list (map (\<lambda>d. length (filter (\<lambda>kl. map_of [(''questions'', 42 :: float64)] (fst kl) = None)
     (cd_labelMap d))) recursorCounterDefs) = 17"
    by (simp add: recursorCounterDefs_def counterDef_def rTimeLabelMap_def rCodeLabelMap_def
          exceptionsLabelMap_def)
  have sm: "buildStatsMap [\<lparr>Name = ''questions'', Kind = ''StatisticItem'', Value = 42\<rparr>] =
      [(''questions'', 42)]"
    by (simp add: buildStatsMap_def)
  have ne: "[\<lparr>Name = ''questions'', Kind = ''StatisticItem'', Value = 42 :: float64\<rparr>] \<noteq> []"
    by simp
  have d: "gaugeDefs (NewExporter [] ''recursor'' []) = recursorGaugeDefs"
    "counterDefs (NewExporter [] ''recursor'' []) = recursorCounterDefs"
    "c_value (jsonParseFailures (NewExporter [] ''recursor'' [])) = 0"
    by (simp_all add: NewExporter_def Let_def)
  from Collect_cycle [OF reachable_new sourceOrder_is_mapOrder ne, of "[]" "''recursor''" "[]"]
  obtain e' ms where
    "Collect sourceOrder (Inr [\<lparr>Name = ''questions'', Kind = ''StatisticItem'', Value = 42\<rparr>])
        (NewExporter [] ''recursor'' []) = Some (e', ms)"
    and "c_value (jsonParseFailures e') = 0 + 3 + 17"
    unfolding sm d g c by (elim exE conjE)
  then show "map_option (\<lambda>r. c_value (jsonParseFailures (fst r)))
     (Collect sourceOrder (Inr [\<lparr>Name = ''questions'', Kind = ''StatisticItem'', Value = 42\<rparr>])
        (NewExporter [] ''recursor'' [])) = Some 20"
    by simp
qed




subsection \<open>Gauges\<close>

lemma gauge_Set_value: "g_value (gauge_Set v g) = v"
  by (simp add: gauge_Set_def)

lemma collectGauges_upto:
  assumes ids: "\<forall>d' \<in> set (pre @ [d]). gd_id d' \<in> dom (gaugeMetrics e)"
    and v: "map_of sm (gd_key d) = Some v"
  shows "\<exists>e1 g. collectGauges sm (pre @ [d]) e = Some e1 \<and>
           gaugeMetrics e1 (gd_id d) = Some g \<and>
           g_value g = (if HasSuffix (gd_key d) ''latency'' then v / 1000000 else v) \<and>
           dom (gaugeMetrics e1) = dom (gaugeMetrics e)"
proof -
  from ids have "\<forall>d' \<in> set pre. gd_id d' \<in> dom (gaugeMetrics e)" by simp
  from collectGauges_total [OF this] obtain e0 where
    p: "collectGauges sm pre e = Some e0" by blast
  from collectGauges_frame [OF p] have d0: "dom (gaugeMetrics e0) = dom (gaugeMetrics e)"
    by simp
  with ids obtain g0 where g0: "gaugeMetrics e0 (gd_id d) = Some g0" by auto
  define w where "w = gauge_Set (if HasSuffix (gd_key d) ''latency'' then v / 1000000 else v) g0"
  define e1 where "e1 = e0\<lparr>gaugeMetrics := (gaugeMetrics e0)(gd_id d \<mapsto> w)\<rparr>"
  have s: "collectGauges sm (pre @ [d]) e = Some e1"
    unfolding collectGauges_append p e1_def w_def
    by (simp only: option.case collectGauges_single [OF v g0])
  have l: "gaugeMetrics e1 (gd_id d) = Some w" by (simp add: e1_def)
  have wv: "g_value w = (if HasSuffix (gd_key d) ''latency'' then v / 1000000 else v)"
    unfolding w_def by (rule gauge_Set_value)
  have d1: "dom (gaugeMetrics e1) = dom (gaugeMetrics e)"
    unfolding e1_def gauge_update_dom [OF g0] by (rule d0)
  from s l wv d1 show ?thesis by (intro exI [of _ e1] exI [of _ w] conjI)
qed

lemma gauge_value_after:
  assumes "reachable e" and "is_mapOrder rt"
    and "gaugeDefs e = pre @ d # post"
    and "map_of (buildStatsMap stats) (gd_key d) = Some v"
  shows "(\<exists>e1 g. collectGauges (buildStatsMap stats) (pre @ [d]) (fst (scrape (Inr stats) e)) =
              Some e1 \<and>
            gaugeMetrics e1 (gd_id d) = Some g \<and>
            g_value g = (if HasSuffix (gd_key d) ''latency'' then v / 1000000 else v)) \<and>
         ((\<forall>d' \<in> set post. gd_id d' = gd_id d \<longrightarrow>
              map_of (buildStatsMap stats) (gd_key d') = None) \<longrightarrow>
          (\<exists>e' ms g. Collect rt (Inr stats) e = Some (e', ms) \<and>
             gaugeMetrics e' (gd_id d) = Some g \<and>
             g_value g = (if HasSuffix (gd_key d) ''latency'' then v / 1000000 else v)))"
proof -
  define sm where "sm = buildStatsMap stats"
  define e0 where "e0 = fst (scrape (Inr stats) e)"
  have v: "map_of sm (gd_key d) = Some v" using assms(4) by (simp only: sm_def)
  have ne: "stats \<noteq> []"
  proof
    assume "stats = []"
    with assms(4) show False by (simp add: buildStatsMap_Nil)
  qed
  have gm0: "gaugeMetrics e0 = gaugeMetrics e" by (simp add: e0_def scrape_success)
  from reachable_invariant [OF assms(1), THEN conjunct1] have
    ids: "\<forall>d' \<in> set (pre @ d # post). gd_id d' \<in> dom (gaugeMetrics e0)"
    by (simp only: gm0 assms(3))
  then have "\<forall>d' \<in> set (pre @ [d]). gd_id d' \<in> dom (gaugeMetrics e0)" by simp
  from collectGauges_upto [OF this v] obtain e1 g where
    s: "collectGauges sm (pre @ [d]) e0 = Some e1"
    and g: "gaugeMetrics e1 (gd_id d) = Some g"
    and gv: "g_value g = (if HasSuffix (gd_key d) ''latency'' then v / 1000000 else v)"
    and d1: "dom (gaugeMetrics e1) = dom (gaugeMetrics e0)"
    by (elim exE conjE)
  have first: "\<exists>e1 g. collectGauges sm (pre @ [d]) e0 = Some e1 \<and>
            gaugeMetrics e1 (gd_id d) = Some g \<and>
            g_value g = (if HasSuffix (gd_key d) ''latency'' then v / 1000000 else v)"
    using s g gv by (intro exI [of _ e1] exI [of _ g] conjI)
  have second: "\<exists>e' ms g. Collect rt (Inr stats) e = Some (e', ms) \<and>
             gaugeMetrics e' (gd_id d) = Some g \<and>
             g_value g = (if HasSuffix (gd_key d) ''latency'' then v / 1000000 else v)"
    if later: "\<forall>d' \<in> set post. gd_id d' = gd_id d \<longrightarrow> map_of sm (gd_key d') = None"
  proof -
    from Collect_cycle [OF assms(1,2) ne] obtain e2 e' cs where
      all: "collectGauges sm (gaugeDefs e) e0 = Some e2"
      and r: "Collect rt (Inr stats) e =
        Some (e', [UpRef, TotalScrapesRef, JsonParseFailuresRef] @ cs @
                  snd (collectHistogram rt sm e'))"
      and gm: "gaugeMetrics e' = gaugeMetrics e2"
      unfolding sm_def e0_def by (elim exE conjE)
    have split: "pre @ d # post = (pre @ [d]) @ post" by simp
    from all have "collectGauges sm post e1 = Some e2"
      unfolding assms(3) split collectGauges_append [of sm "pre @ [d]" post] s
      by (simp only: option.case)
    from collectGauges_untouched [OF this later] have "gaugeMetrics e2 (gd_id d) = Some g"
      by (simp only: g)
    with r gv show ?thesis unfolding gm [symmetric]
      by (intro exI [of _ e'] exI [of _ g] exI conjI)
  qed
  from first second show ?thesis unfolding sm_def e0_def by (intro conjI impI)
qed

text \<open>
  C6. A gauge is emitted by setting the persistent gauge object of the definition's id in
  place. For a definition whose key is in the snapshot, the value set is the raw value
  divided by 1000000 when the key ends in \<^verbatim>\<open>latency\<close>, and the raw value itself otherwise:
  this is the gauge's value once the loop has processed the definition, and still its value
  at the end of the cycle unless a later definition with the same id has its key in the
  snapshot too.
\<close>

theorem gauge_latency_conversion:
  assumes "reachable e" and "is_mapOrder rt"
    and "gaugeDefs e = pre @ d # post"
    and "map_of (buildStatsMap stats) (gd_key d) = Some v"
  shows "(\<exists>e1 g. collectGauges (buildStatsMap stats) (pre @ [d]) (fst (scrape (Inr stats) e)) =
              Some e1 \<and>
            gaugeMetrics e1 (gd_id d) = Some g \<and>
            g_value g = (if HasSuffix (gd_key d) ''latency'' then v / 1000000 else v)) \<and>
         ((\<forall>d' \<in> set post. gd_id d' = gd_id d \<longrightarrow>
              map_of (buildStatsMap stats) (gd_key d') = None) \<longrightarrow>
          (\<exists>e' ms g. Collect rt (Inr stats) e = Some (e', ms) \<and>
             gaugeMetrics e' (gd_id d) = Some g \<and>
             g_value g = (if HasSuffix (gd_key d) ''latency'' then v / 1000000 else v)))"
  using assms by (rule gauge_value_after)

theorem gauge_latency_conversion_witness:
  "(\<exists>e1 g. collectGauges
              (buildStatsMap [\<lparr>Name = ''qa_latency'', Kind = ''StatisticItem'', Value = 2500\<rparr>])
              ([] @ [gaugeDef 1 ''latency_average_seconds''
                       ''Exponential moving average of question-to-answer latency.''
                       ''qa_latency''])
              (fst (scrape (Inr [\<lparr>Name = ''qa_latency'', Kind = ''StatisticItem'', Value = 2500\<rparr>])
                     (NewExporter [] ''recursor'' []))) = Some e1 \<and>
            gaugeMetrics e1 1 = Some g \<and> g_value g = 1 / 400) \<and>
   (\<exists>e' ms g. Collect sourceOrder
        (Inr [\<lparr>Name = ''qa_latency'', Kind = ''StatisticItem'', Value = 2500\<rparr>])
        (NewExporter [] ''recursor'' []) = Some (e', ms) \<and>
      gaugeMetrics e' 1 = Some g \<and> g_value g = 1 / 400)"
proof -
  let ?d = "gaugeDef 1 ''latency_average_seconds''
              ''Exponential moving average of question-to-answer latency.'' ''qa_latency''"
  let ?post = "[gaugeDef 2 ''concurrent_queries'' ''Number of concurrent queries.''
                  ''concurrent_queries'',
                gaugeDef 3 ''cache_size'' ''Number of entries in the cache.'' ''cache_entries'']"
  have defs: "gaugeDefs (NewExporter [] ''recursor'' []) = [] @ ?d # ?post"
    by (simp add: NewExporter_def Let_def recursorGaugeDefs_def)
  have key: "map_of (buildStatsMap [\<lparr>Name = ''qa_latency'', Kind = ''StatisticItem'', Value = 2500\<rparr>])
               (gd_key ?d) = Some 2500"
    by (simp add: buildStatsMap_def gaugeDef_def)
  have later: "\<forall>d' \<in> set ?post. gd_id d' = gd_id ?d \<longrightarrow>
      map_of (buildStatsMap [\<lparr>Name = ''qa_latency'', Kind = ''StatisticItem'', Value = 2500\<rparr>])
        (gd_key d') = None"
    by (simp add: gaugeDef_def)
  have conv: "(if HasSuffix (gd_key ?d) ''latency'' then 2500 / 1000000 else 2500) = (1 / 400 :: float64)"
    by (simp add: HasSuffix_def gaugeDef_def)
  have id: "gd_id ?d = 1" by (simp add: gaugeDef_def)
  from gauge_latency_conversion [OF reachable_new sourceOrder_is_mapOrder defs key] later
  show ?thesis unfolding conv id by blast
qed

subsection \<open>Counter series\<close>

lemma labelOrder_filter_single:
  assumes "is_mapOrder rt" and "filter P xs = [x]"
  shows "filter P (labelOrder rt xs) = [x]"
proof -
  have "mset (labelOrder rt xs) = mset xs" using assms(1) by (simp add: is_mapOrder_def)
  then have "mset (filter P (labelOrder rt xs)) = mset (filter P xs)" by simp
  also have "mset (filter P xs) = {#x#}" unfolding assms(2) by simp
  finally show ?thesis by (simp only: mset_single_iff)
qed

lemma incoming_queries_scenario:
  assumes rt: "is_mapOrder rt"
    and dsc: "counterMetrics x 1 = Some dsc"
    and q: "map_of sm ''questions'' = Some 42"
    and t: "map_of sm ''tcp-questions'' = None"
  shows "collectLabels sm
           (counterDef 1 ''incoming_queries_total''
              ''Total number of incoming queries by network.'' ''net''
              [(''questions'', ''udp''), (''tcp-questions'', ''tcp'')])
           (labelOrder rt [(''questions'', ''udp''), (''tcp-questions'', ''tcp'')]) x =
         Some (x\<lparr>jsonParseFailures := counter_Inc (jsonParseFailures x)\<rparr>,
               [ConstMetric dsc CounterValue 42 [''udp'']])"
proof -
  let ?L = "[(''questions'', ''udp''), (''tcp-questions'', ''tcp'')]"
  let ?d = "counterDef 1 ''incoming_queries_total''
              ''Total number of incoming queries by network.'' ''net'' ?L"
  have id: "counterMetrics x (cd_id ?d) = Some dsc" using dsc by (simp add: counterDef_def)
  have "filter (\<lambda>kl. map_of sm (fst kl) \<noteq> None) ?L = [(''questions'', ''udp'')]"
    using q t by simp
  from labelOrder_filter_single [OF rt this]
  have present: "filter (\<lambda>kl. map_of sm (fst kl) \<noteq> None) (labelOrder rt ?L) =
      [(''questions'', ''udp'')]" .
  have "length (filter (\<lambda>kl. map_of sm (fst kl) = None) ?L) = 1" using q t by simp
  then have absent: "length (filter (\<lambda>kl. map_of sm (fst kl) = None) (labelOrder rt ?L)) = 1"
    by (simp only: labelOrder_filter_length [OF rt])
  show ?thesis
    unfolding collectLabels_char [OF id] present absent using q
    by (simp add: counter_Inc_def)
qed

text \<open>
  C7. In a cycle with a non-empty snapshot the counter series sent are, up to the order in
  which each label map is visited, exactly one series for every label-map entry of every
  counter definition whose raw key is in the snapshot, under the definition's descriptor,
  with the entry's label value and the raw value; every absent raw key of a gauge or
  counter definition adds one to \<open>jsonParseFailures\<close> and no entry is skipped.
  For the recursor definition with the label map \<^verbatim>\<open>questions\<close> \<mapsto> \<^verbatim>\<open>udp\<close>,
  \<^verbatim>\<open>tcp-questions\<close> \<mapsto> \<^verbatim>\<open>tcp\<close>, a snapshot with \<^verbatim>\<open>questions\<close> = 42 and no
  \<^verbatim>\<open>tcp-questions\<close> makes the definition's loop send the single series \<^verbatim>\<open>udp\<close> with
  value 42 and increment \<open>jsonParseFailures\<close> once.
\<close>

theorem counter_series_per_present_key:
  assumes "reachable e" and "is_mapOrder rt" and "stats \<noteq> []"
  shows "(\<exists>e' cs. Collect rt (Inr stats) e =
            Some (e', [UpRef, TotalScrapesRef, JsonParseFailuresRef] @ cs @
                        snd (collectHistogram rt (buildStatsMap stats) e')) \<and>
          mset cs =
            mset (concat (map (\<lambda>d. map (\<lambda>kl. ConstMetric
                       (NewDesc (BuildFQName namespace (ServerType e) (cd_name d)) (cd_desc d)
                          [cd_label d])
                       CounterValue (the (map_of (buildStatsMap stats) (fst kl))) [snd kl])
                     (filter (\<lambda>kl. map_of (buildStatsMap stats) (fst kl) \<noteq> None)
                        (cd_labelMap d)))
                   (counterDefs e))) \<and>
          c_value (jsonParseFailures e') =
            c_value (jsonParseFailures e) +
            length (filter (\<lambda>d. map_of (buildStatsMap stats) (gd_key d) = None) (gaugeDefs e)) +
            sum_list (map (\<lambda>d. length (filter (\<lambda>kl. map_of (buildStatsMap stats) (fst kl) = None)
                                    (cd_labelMap d))) (counterDefs e))) \<and>
         (\<forall>x dsc. counterMetrics x 1 = Some dsc \<and>
            map_of (buildStatsMap stats) ''questions'' = Some 42 \<and>
            map_of (buildStatsMap stats) ''tcp-questions'' = None \<longrightarrow>
            collectLabels (buildStatsMap stats)
              (counterDef 1 ''incoming_queries_total''
                 ''Total number of incoming queries by network.'' ''net''
                 [(''questions'', ''udp''), (''tcp-questions'', ''tcp'')])
              (labelOrder rt [(''questions'', ''udp''), (''tcp-questions'', ''tcp'')]) x =
            Some (x\<lparr>jsonParseFailures := counter_Inc (jsonParseFailures x)\<rparr>,
                  [ConstMetric dsc CounterValue 42 [''udp'']]))"
proof (intro conjI allI impI)
  from Collect_cycle [OF assms] show "\<exists>e' cs. Collect rt (Inr stats) e =
            Some (e', [UpRef, TotalScrapesRef, JsonParseFailuresRef] @ cs @
                        snd (collectHistogram rt (buildStatsMap stats) e')) \<and>
          mset cs =
            mset (concat (map (\<lambda>d. map (\<lambda>kl. ConstMetric
                       (NewDesc (BuildFQName namespace (ServerType e) (cd_name d)) (cd_desc d)
                          [cd_label d])
                       CounterValue (the (map_of (buildStatsMap stats) (fst kl))) [snd kl])
                     (filter (\<lambda>kl. map_of (buildStatsMap stats) (fst kl) \<noteq> None)
                        (cd_labelMap d)))
                   (counterDefs e))) \<and>
          c_value (jsonParseFailures e') =
            c_value (jsonParseFailures e) +
            length (filter (\<lambda>d. map_of (buildStatsMap stats) (gd_key d) = None) (gaugeDefs e)) +
            sum_list (map (\<lambda>d. length (filter (\<lambda>kl. map_of (buildStatsMap stats) (fst kl) = None)
                                    (cd_labelMap d))) (counterDefs e))"
    by (elim exE conjE, intro exI conjI)
next
  fix x :: exporter and dsc
  assume "counterMetrics x 1 = Some dsc \<and>
            map_of (buildStatsMap stats) ''questions'' = Some 42 \<and>
            map_of (buildStatsMap stats) ''tcp-questions'' = None"
  then have a: "counterMetrics x 1 = Some dsc"
    "map_of (buildStatsMap stats) ''questions'' = Some 42"
    "map_of (buildStatsMap stats) ''tcp-questions'' = None"
    by simp_all
  show "collectLabels (buildStatsMap stats)
              (counterDef 1 ''incoming_queries_total''
                 ''Total number of incoming queries by network.'' ''net''
                 [(''questions'', ''udp''), (''tcp-questions'', ''tcp'')])
              (labelOrder rt [(''questions'', ''udp''), (''tcp-questions'', ''tcp'')]) x =
            Some (x\<lparr>jsonParseFailures := counter_Inc (jsonParseFailures x)\<rparr>,
                  [ConstMetric dsc CounterValue 42 [''udp'']])"
    by (rule incoming_queries_scenario [OF assms(2) a])
qed

theorem counter_series_per_present_key_witness:
  "(\<exists>e' cs. Collect sourceOrder
        (Inr [\<lparr>Name = ''questions'', Kind = ''StatisticItem'', Value = 42\<rparr>])
        (NewExporter [] ''recursor'' []) =
        Some (e', [UpRef, TotalScrapesRef, JsonParseFailuresRef] @ cs @
                    snd (collectHistogram sourceOrder [(''questions'', 42)] e')) \<and>
      mset cs =
        {#ConstMetric
            (NewDesc ''powerdns_recursor_incoming_queries_total''
               ''Total number of incoming queries by network.'' [''net''])
            CounterValue 42 [''udp'']#} \<and>
      c_value (jsonParseFailures e') = 20) \<and>
   collectLabels [(''questions'', 42)]
     (counterDef 1 ''incoming_queries_total''
        ''Total number of incoming queries by network.'' ''net''
        [(''questions'', ''udp''), (''tcp-questions'', ''tcp'')])
     (labelOrder sourceOrder [(''questions'', ''udp''), (''tcp-questions'', ''tcp'')])
     (NewExporter [] ''recursor'' []) =
   Some ((NewExporter [] ''recursor'' [])
           \<lparr>jsonParseFailures := counter_Inc (jsonParseFailures (NewExporter [] ''recursor'' []))\<rparr>,
         [ConstMetric
            (NewDesc ''powerdns_recursor_incoming_queries_total''
               ''Total number of incoming queries by network.'' [''net''])
            CounterValue 42 [''udp'']])"
proof -
  let ?dsc = "NewDesc ''powerdns_recursor_incoming_queries_total''
               ''Total number of incoming queries by network.'' [''net'']"
  have ne: "[\<lparr>Name = ''questions'', Kind = ''StatisticItem'', Value = 42 :: float64\<rparr>] \<noteq> []"
    by simp
  have sm: "buildStatsMap [\<lparr>Name = ''questions'', Kind = ''StatisticItem'', Value = 42\<rparr>] =
      [(''questions'', 42)]"
    by (simp add: buildStatsMap_def)
  have d: "gaugeDefs (NewExporter [] ''recursor'' []) = recursorGaugeDefs"
    "counterDefs (NewExporter [] ''recursor'' []) = recursorCounterDefs"
    "c_value (jsonParseFailures (NewExporter [] ''recursor'' [])) = 0"
    "ServerType (NewExporter [] ''recursor'' []) = ''recursor''"
    by (simp_all add: NewExporter_def Let_def)
  have g: "length (filter (\<lambda>d. map_of [(''questions'', 42 :: float64)] (gd_key d) = None)
     recursorGaugeDefs) = 3"
    by (simp add: recursorGaugeDefs_def gaugeDef_def)
  have c: "sum_list (map (\<lambda>d. length (filter (\<lambda>kl. map_of [(''questions'', 42 :: float64)] (fst kl) = None)
     (cd_labelMap d))) recursorCounterDefs) = 17"
    by (simp add: recursorCounterDefs_def counterDef_def rTimeLabelMap_def rCodeLabelMap_def
          exceptionsLabelMap_def)
  have s: "concat (map (\<lambda>d. map (\<lambda>kl. ConstMetric
                       (NewDesc (BuildFQName namespace ''recursor'' (cd_name d)) (cd_desc d)
                          [cd_label d])
                       CounterValue (the (map_of [(''questions'', 42 :: float64)] (fst kl))) [snd kl])
                     (filter (\<lambda>kl. map_of [(''questions'', 42 :: float64)] (fst kl) \<noteq> None)
                        (cd_labelMap d)))
                   recursorCounterDefs) = [ConstMetric ?dsc CounterValue 42 [''udp'']]"
    by (simp add: recursorCounterDefs_def counterDef_def rTimeLabelMap_def rCodeLabelMap_def
          exceptionsLabelMap_def BuildFQName_def namespace_def)
  have m: "counterMetrics (NewExporter [] ''recursor'' []) 1 = Some ?dsc"
    by (simp add: NewExporter_def Let_def recursorCounterDefs_def counterDef_def
          BuildFQName_def namespace_def)
  have q: "map_of [(''questions'', 42 :: float64)] ''questions'' = Some 42"
    "map_of [(''questions'', 42 :: float64)] ''tcp-questions'' = None"
    by simp_all
  note t = counter_series_per_present_key [OF reachable_new sourceOrder_is_mapOrder ne,
      of "[]" "''recursor''" "[]", unfolded sm d g c s]
  from t [THEN conjunct1] have first: "\<exists>e' cs. Collect sourceOrder
        (Inr [\<lparr>Name = ''questions'', Kind = ''StatisticItem'', Value = 42\<rparr>])
        (NewExporter [] ''recursor'' []) =
        Some (e', [UpRef, TotalScrapesRef, JsonParseFailuresRef] @ cs @
                    snd (collectHistogram sourceOrder [(''questions'', 42)] e')) \<and>
      mset cs = {#ConstMetric ?dsc CounterValue 42 [''udp'']#} \<and>
      c_value (jsonParseFailures e') = 20"
    by simp
  from t [THEN conjunct2, rule_format, of "NewExporter [] ''recursor'' []" ?dsc] m q
  have second: "collectLabels [(''questions'', 42)]
     (counterDef 1 ''incoming_queries_total''
        ''Total number of incoming queries by network.'' ''net''
        [(''questions'', ''udp''), (''tcp-questions'', ''tcp'')])
     (labelOrder sourceOrder [(''questions'', ''udp''), (''tcp-questions'', ''tcp'')])
     (NewExporter [] ''recursor'' []) =
   Some ((NewExporter [] ''recursor'' [])
           \<lparr>jsonParseFailures := counter_Inc (jsonParseFailures (NewExporter [] ''recursor'' []))\<rparr>,
         [ConstMetric ?dsc CounterValue 42 [''udp'']])"
    by blast
  from first second show ?thesis by (rule conjI)
qed

subsection \<open>A gauge whose key is absent\<close>

text \<open>
  Counterexample to C10 as stated: a cycle whose snapshot is empty lacks every key, writes
  no gauge, and leaves \<open>jsonParseFailures\<close> as it was (the cycle returns before the
  gauge loop).
\<close>

theorem empty_snapshot_not_counted:
  "map_of (buildStatsMap []) ''qa_latency'' = None \<and>
   Collect sourceOrder (Inr []) (NewExporter [] ''recursor'' []) =
     Some ((NewExporter [] ''recursor'' [])
             \<lparr>up := gauge_Set 1 (up (NewExporter [] ''recursor'' [])),
              totalScrapes := counter_Inc (totalScrapes (NewExporter [] ''recursor'' []))\<rparr>,
           [UpRef, TotalScrapesRef, JsonParseFailuresRef]) \<and>
   jsonParseFailures
     ((NewExporter [] ''recursor'' [])
        \<lparr>up := gauge_Set 1 (up (NewExporter [] ''recursor'' [])),
         totalScrapes := counter_Inc (totalScrapes (NewExporter [] ''recursor'' []))\<rparr>) =
   jsonParseFailures (NewExporter [] ''recursor'' [])"
  by (simp add: Collect_empty buildStatsMap_Nil)

text \<open>
  C10 (as amended). The gauge object of a definition's id exists in every exporter that
  \<^verbatim>\<open>NewExporter\<close> built, before and after any number of cycles. In a cycle with a non-empty
  snapshot that lacks the definition's key, and in which no definition sharing the id has
  its key in the snapshot, the gauge object is not written: it is the same after the cycle
  as before, neither reset nor removed, and \<open>jsonParseFailures\<close> has gone up.
\<close>

theorem gauge_kept_when_key_absent:
  assumes "reachable e" and "is_mapOrder rt" and "stats \<noteq> []"
    and "d \<in> set (gaugeDefs e)"
    and "map_of (buildStatsMap stats) (gd_key d) = None"
    and "\<forall>d' \<in> set (gaugeDefs e). gd_id d' = gd_id d \<longrightarrow>
           map_of (buildStatsMap stats) (gd_key d') = None"
  shows "\<exists>e' ms g. Collect rt (Inr stats) e = Some (e', ms) \<and>
           gaugeMetrics e (gd_id d) = Some g \<and> gaugeMetrics e' (gd_id d) = Some g \<and>
           c_value (jsonParseFailures e) < c_value (jsonParseFailures e')"
proof -
  define sm where "sm = buildStatsMap stats"
  from Collect_cycle [OF assms(1-3)] obtain e1 e' cs where
    g: "collectGauges sm (gaugeDefs e) (fst (scrape (Inr stats) e)) = Some e1"
    and r: "Collect rt (Inr stats) e =
      Some (e', [UpRef, TotalScrapesRef, JsonParseFailuresRef] @ cs @
                  snd (collectHistogram rt sm e'))"
    and gm: "gaugeMetrics e' = gaugeMetrics e1"
    and j: "c_value (jsonParseFailures e') =
      c_value (jsonParseFailures e) +
      length (filter (\<lambda>d. map_of sm (gd_key d) = None) (gaugeDefs e)) +
      sum_list (map (\<lambda>d. length (filter (\<lambda>kl. map_of sm (fst kl) = None)
                              (cd_labelMap d))) (counterDefs e))"
    unfolding sm_def by (elim exE conjE)
  from reachable_invariant [OF assms(1), THEN conjunct1] assms(4) obtain g0 where
    g0: "gaugeMetrics e (gd_id d) = Some g0" by auto
  have "gaugeMetrics e1 (gd_id d) = gaugeMetrics (fst (scrape (Inr stats) e)) (gd_id d)"
    using g assms(6) unfolding sm_def by (rule collectGauges_untouched)
  then have g1: "gaugeMetrics e' (gd_id d) = Some g0"
    by (simp add: gm scrape_success g0)
  have "d \<in> set (filter (\<lambda>d. map_of sm (gd_key d) = None) (gaugeDefs e))"
    using assms(4,5) by (simp add: sm_def)
  then have "0 < length (filter (\<lambda>d. map_of sm (gd_key d) = None) (gaugeDefs e))"
    by (rule length_pos_if_in_set)
  with j have lt: "c_value (jsonParseFailures e) < c_value (jsonParseFailures e')" by simp
  from r g0 g1 lt show ?thesis by (intro exI conjI)
qed

text \<open>
  The theorem at a gauge that has been set: a first cycle with \<^verbatim>\<open>qa_latency\<close> = 2500 sets
  the gauge of id 1 to 1 / 400; a second cycle whose snapshot holds only \<^verbatim>\<open>questions\<close>
  leaves that gauge object as it is, at 1 / 400, and raises \<open>jsonParseFailures\<close>.
\<close>

theorem gauge_kept_when_key_absent_witness:
  "\<exists>e1 ms1 e2 ms2 g.
     Collect sourceOrder
       (Inr [\<lparr>Name = ''qa_latency'', Kind = ''StatisticItem'', Value = 2500\<rparr>])
       (NewExporter [] ''recursor'' []) = Some (e1, ms1) \<and>
     Collect sourceOrder
       (Inr [\<lparr>Name = ''questions'', Kind = ''StatisticItem'', Value = 42\<rparr>]) e1 =
       Some (e2, ms2) \<and>
     gaugeMetrics e1 1 = Some g \<and> g_value g = 1 / 400 \<and>
     gaugeMetrics e2 1 = Some g \<and>
     c_value (jsonParseFailures e1) < c_value (jsonParseFailures e2)"
proof -
  let ?d = "gaugeDef 1 ''latency_average_seconds''
              ''Exponential moving average of question-to-answer latency.'' ''qa_latency''"
  let ?post = "[gaugeDef 2 ''concurrent_queries'' ''Number of concurrent queries.''
                  ''concurrent_queries'',
                gaugeDef 3 ''cache_size'' ''Number of entries in the cache.'' ''cache_entries'']"
  let ?s1 = "[\<lparr>Name = ''qa_latency'', Kind = ''StatisticItem'', Value = 2500 :: float64\<rparr>]"
  let ?s2 = "[\<lparr>Name = ''questions'', Kind = ''StatisticItem'', Value = 42 :: float64\<rparr>]"
  have id: "gd_id ?d = 1" by (simp add: gaugeDef_def)
  have defs0: "gaugeDefs (NewExporter [] ''recursor'' []) = recursorGaugeDefs"
    by (simp add: NewExporter_def Let_def)
  have split: "gaugeDefs (NewExporter [] ''recursor'' []) = [] @ ?d # ?post"
    unfolding defs0 by (simp add: recursorGaugeDefs_def)
  have key1: "map_of (buildStatsMap ?s1) (gd_key ?d) = Some 2500"
    by (simp add: buildStatsMap_def gaugeDef_def)
  have later: "\<forall>d' \<in> set ?post. gd_id d' = gd_id ?d \<longrightarrow>
      map_of (buildStatsMap ?s1) (gd_key d') = None"
    by (simp add: gaugeDef_def)
  have conv: "(if HasSuffix (gd_key ?d) ''latency'' then 2500 / 1000000 else 2500) =
      (1 / 400 :: float64)"
    by (simp add: HasSuffix_def gaugeDef_def)
  from gauge_value_after [OF reachable_new sourceOrder_is_mapOrder split key1,
      THEN conjunct2, THEN mp, OF later]
  obtain e1 ms1 g where
    c1: "Collect sourceOrder (Inr ?s1) (NewExporter [] ''recursor'' []) = Some (e1, ms1)"
    and g1: "gaugeMetrics e1 1 = Some g" and gv: "g_value g = 1 / 400"
    unfolding conv id by (elim exE conjE)
  have r1: "reachable e1"
    by (rule reachable_cycle [OF reachable_new sourceOrder_is_mapOrder c1])
  from Collect_frame [OF c1] have defs1: "gaugeDefs e1 = recursorGaugeDefs"
    by (simp add: defs0)
  have ne: "?s2 \<noteq> []" by simp
  have sm: "buildStatsMap ?s2 = [(''questions'', 42)]"
    by (simp add: buildStatsMap_def)
  have mem: "?d \<in> set (gaugeDefs e1)"
    unfolding defs1 by (simp add: recursorGaugeDefs_def)
  have key2: "map_of (buildStatsMap ?s2) (gd_key ?d) = None"
    unfolding sm by (simp add: gaugeDef_def)
  have same: "\<forall>d' \<in> set (gaugeDefs e1). gd_id d' = gd_id ?d \<longrightarrow>
      map_of (buildStatsMap ?s2) (gd_key d') = None"
    unfolding sm defs1 by (simp add: recursorGaugeDefs_def gaugeDef_def)
  from gauge_kept_when_key_absent [OF r1 sourceOrder_is_mapOrder ne mem key2 same]
  obtain e2 ms2 g' where
    c2: "Collect sourceOrder (Inr ?s2) e1 = Some (e2, ms2)"
    and b: "gaugeMetrics e1 1 = Some g'" and k: "gaugeMetrics e2 1 = Some g'"
    and lt: "c_value (jsonParseFailures e1) < c_value (jsonParseFailures e2)"
    unfolding id by (elim exE conjE)
  from b g1 have "g' = g" by simp
  with k have g2: "gaugeMetrics e2 1 = Some g" by simp
  from c1 c2 g1 gv g2 lt show ?thesis
    by (intro exI [of _ e1] exI [of _ ms1] exI [of _ e2] exI [of _ ms2] exI [of _ g] conjI)
qed

text \<open>
  The authoritative catalog gives the id 6 to two gauge definitions
  (\<^verbatim>\<open>security_status\<close> and \<^verbatim>\<open>qsize\<close>), so the two share one gauge object: a snapshot
  with \<^verbatim>\<open>qsize-q\<close> and without \<^verbatim>\<open>security-status\<close> writes the object of id 6.
\<close>

lemma duplicate_gauge_id:
  "map_option (\<lambda>e. map_option g_value (gaugeMetrics e 6))
     (collectGauges [(''qsize-q'', 5)] authoritativeGaugeDefs (NewExporter [] ''authoritative'' []))
   = Some (Some 5)"
  by (simp add: authoritativeGaugeDefs_def gaugeDef_def NewExporter_def Let_def HasSuffix_def
        newGaugeMetric_def gauge_Set_def counter_Inc_def)

end
